theory Spec2Isabelle
  imports Complex_Main "HOL-Library.Signed_Division" "HOL-Library.AList"
begin

section \<open>Time values\<close>

text \<open>
  A \<open>time.Time\<close> obtained from \<open>time.Now()\<close> is modelled by its reading in nanoseconds
  since the Unix epoch, all readings taken on one clock; a \<open>time.Duration\<close> by its count of
  nanoseconds. \<open>Time.Sub\<close> saturates at the ends of the 64-bit range of \<open>Duration\<close>, as the
  Go library does.
\<close>

type_synonym time = int
type_synonym duration = int

definition maxDuration :: duration where
  "maxDuration = 9223372036854775807"

definition minDuration :: duration where
  "minDuration = - 9223372036854775808"

definition Second :: duration where
  "Second = 1000000000"

definition Minute :: duration where
  "Minute = 60 * Second"

definition time_Sub :: "time \<Rightarrow> time \<Rightarrow> duration" where
  "time_Sub t u =
     (if t - u > maxDuration then maxDuration
      else if t - u < minDuration then minDuration
      else t - u)"

definition time_Add :: "time \<Rightarrow> duration \<Rightarrow> time" where
  "time_Add t d = t + d"

section \<open>Library functions taken as parameters\<close>

text \<open>
  The functions of the Go standard library that the middleware calls and whose code is not
  part of this repository are parameters of the model: \<open>net.ParseCIDR\<close> (\<open>None\<close> when it
  returns an error), \<open>net.ParseIP\<close> (\<open>None\<close> for \<open>nil\<close>), \<open>IPNet.Contains\<close>,
  \<open>strings.TrimSpace\<close>, \<open>textproto.CanonicalMIMEHeaderKey\<close> (applied by the methods of
  \<open>http.Header\<close>), \<open>Duration.String\<close>, \<open>Time.Format(time.RFC3339)\<close> and \<open>json.Marshal\<close>.
\<close>

datatype jval = JString string | JInt int

record ('ip, 'net) golib =
  ParseCIDR :: "string \<Rightarrow> 'net option"
  ParseIP :: "string \<Rightarrow> 'ip option"
  Contains :: "'net \<Rightarrow> 'ip \<Rightarrow> bool"
  TrimSpace :: "string \<Rightarrow> string"
  CanonicalMIMEHeaderKey :: "string \<Rightarrow> string"
  DurationString :: "duration \<Rightarrow> string"
  FormatRFC3339 :: "time \<Rightarrow> string"
  Marshal :: "(string \<times> jval) list \<Rightarrow> string"

text \<open>\<open>fmt.Sprintf("%d", i)\<close>: the decimal digits of an integer.\<close>

fun dec_digits :: "nat \<Rightarrow> string" where
  "dec_digits n =
     (if n < 10 then [''0123456789'' ! n]
      else dec_digits (n div 10) @ [''0123456789'' ! (n mod 10)])"

definition Sprintf_d :: "int \<Rightarrow> string" where
  "Sprintf_d i = (if i < 0 then CHR ''-'' # dec_digits (nat (- i)) else dec_digits (nat i))"

text \<open>
  \<open>strings.Index\<close> and \<open>strings.LastIndex\<close> for a one-byte separator: the position of the
  first (last) occurrence, or \<open>-1\<close>.
\<close>

fun Index :: "string \<Rightarrow> char \<Rightarrow> int" where
  "Index [] c = - 1"
| "Index (x # xs) c =
     (if x = c then 0 else (let i = Index xs c in if i = - 1 then - 1 else i + 1))"

definition LastIndex :: "string \<Rightarrow> char \<Rightarrow> int" where
  "LastIndex s c =
     (let i = Index (rev s) c in if i = - 1 then - 1 else int (length s) - 1 - i)"

section \<open>HTTP headers and the request context\<close>

text \<open>
  An \<open>http.Header\<close> is a Go map from names to value lists, kept here as an association
  list with distinct keys. \<open>Set\<close> and \<open>Add\<close> canonicalise the name first.
\<close>

type_synonym http_Header = "(string \<times> string list) list"

definition Header_Get :: "http_Header \<Rightarrow> string \<Rightarrow> string list" where
  "Header_Get h k = (case map_of h k of None \<Rightarrow> [] | Some vs \<Rightarrow> vs)"

definition Header_Set :: "('ip, 'net) golib \<Rightarrow> http_Header \<Rightarrow> string \<Rightarrow> string \<Rightarrow> http_Header" where
  "Header_Set L h k v = AList.update (CanonicalMIMEHeaderKey L k) [v] h"

definition Header_Add :: "('ip, 'net) golib \<Rightarrow> http_Header \<Rightarrow> string \<Rightarrow> string \<Rightarrow> http_Header" where
  "Header_Add L h k v =
     AList.update (CanonicalMIMEHeaderKey L k) (Header_Get h (CanonicalMIMEHeaderKey L k) @ [v]) h"

text \<open>
  The request as the limiter reads it: the peer address \<open>c.Req.RemoteAddr\<close> and the
  request headers through \<open>c.Header(name)\<close>, which is the empty string for an absent header.
  Of the context, the limiter touches the response headers (\<open>c.SetHeader\<close>, the \<open>Set\<close> of the
  response writer's header), and ends a denied request with \<open>c.AbortWithStatusJSON\<close>, recorded
  as the abort flag and the status and payload of the reply.
\<close>

record request =
  RemoteAddr :: string
  Header :: "string \<Rightarrow> string"

record Context =
  Req :: request
  ResHeader :: http_Header
  Aborted :: bool
  Reply :: "(int \<times> (string \<times> jval) list) option"

definition SetHeader :: "('ip, 'net) golib \<Rightarrow> Context \<Rightarrow> string \<Rightarrow> string \<Rightarrow> Context" where
  "SetHeader L c k v = c\<lparr>ResHeader := Header_Set L (ResHeader c) k v\<rparr>"

definition AbortWithStatusJSON :: "Context \<Rightarrow> int \<Rightarrow> (string \<times> jval) list \<Rightarrow> Context" where
  "AbortWithStatusJSON c code obj = c\<lparr>Aborted := True, Reply := Some (code, obj)\<rparr>"

section \<open>Token bucket limiter (ratelimit.go)\<close>

record RateLimiterConfig =
  rl_Max :: int
  rl_Window :: duration
  rl_KeyFunc :: "(Context \<Rightarrow> string) option"
  rl_ErrorMessage :: string
  rl_StatusCode :: int
  rl_SkipFunc :: "(Context \<Rightarrow> bool) option"
  rl_Headers :: bool
  rl_TrustedProxies :: "string list"

record bucket =
  tokens :: int
  lastReset :: time

record rateLimiter =
  buckets :: "string \<rightharpoonup> bucket"
  config :: RateLimiterConfig

text \<open>
  \<open>allow\<close>: the clock reading \<open>now\<close> of \<open>time.Now()\<close> is an input; the updated limiter is
  returned next to the triple (allowed, remaining, reset time).
\<close>

definition allow :: "rateLimiter \<Rightarrow> time \<Rightarrow> string \<Rightarrow> (bool \<times> int \<times> time) \<times> rateLimiter" where
  "allow rl now key =
     (let b0 = (case buckets rl key of
                  None \<Rightarrow> \<lparr>tokens = rl_Max (config rl), lastReset = now\<rparr>
                | Some b \<Rightarrow> b);
          b1 = (if time_Sub now (lastReset b0) \<ge> rl_Window (config rl)
                then b0\<lparr>tokens := rl_Max (config rl), lastReset := now\<rparr>
                else b0);
          resetTime = time_Add (lastReset b1) (rl_Window (config rl))
      in if tokens b1 > 0
         then ((True, tokens b1 - 1, resetTime),
               rl\<lparr>buckets := (buckets rl)(key \<mapsto> b1\<lparr>tokens := tokens b1 - 1\<rparr>)\<rparr>)
         else ((False, 0, resetTime),
               rl\<lparr>buckets := (buckets rl)(key \<mapsto> b1)\<rparr>))"

text \<open>Successive calls of \<open>allow\<close> for one key, at the given clock readings.\<close>

fun allow_many :: "rateLimiter \<Rightarrow> string \<Rightarrow> time list \<Rightarrow> (bool \<times> int \<times> time) list \<times> rateLimiter" where
  "allow_many rl key [] = ([], rl)"
| "allow_many rl key (t # ts) =
     (let (r, rl') = allow rl t key;
          (rs, rl'') = allow_many rl' key ts
      in (r # rs, rl''))"

subsection \<open>Key functions\<close>

definition defaultKeyFunc :: "Context \<Rightarrow> string" where
  "defaultKeyFunc c = RemoteAddr (Req c)"

text \<open>\<open>isIPInCIDR\<close> (auth.go); \<open>ip[:idx]\<close> is \<open>take idx ip\<close>.\<close>

definition isIPInCIDR :: "('ip, 'net) golib \<Rightarrow> string \<Rightarrow> string \<Rightarrow> bool" where
  "isIPInCIDR L ipStr cidr =
     (case ParseCIDR L cidr of
        None \<Rightarrow> ipStr = cidr
      | Some ipNet \<Rightarrow>
          (let idx = LastIndex ipStr CHR '':'';
               ip = (if idx \<noteq> - 1 then take (nat idx) ipStr else ipStr)
           in case ParseIP L ip of
                None \<Rightarrow> False
              | Some parsedIP \<Rightarrow> Contains L ipNet parsedIP))"

text \<open>The loop over the trusted proxies, leaving at the first match.\<close>

fun isTrusted :: "('ip, 'net) golib \<Rightarrow> string \<Rightarrow> string list \<Rightarrow> bool" where
  "isTrusted L remoteIP [] = False"
| "isTrusted L remoteIP (proxy # proxies) =
     (if remoteIP = proxy \<or> isIPInCIDR L remoteIP proxy then True
      else isTrusted L remoteIP proxies)"

definition keyFuncWithTrustedProxies :: "('ip, 'net) golib \<Rightarrow> string list \<Rightarrow> Context \<Rightarrow> string" where
  "keyFuncWithTrustedProxies L trustedProxies c =
     (let remoteIP = RemoteAddr (Req c)
      in if isTrusted L remoteIP trustedProxies
         then (let ip = Header (Req c) ''X-Forwarded-For''
               in if ip \<noteq> []
                  then (let idx = Index ip CHR '',''
                        in if idx \<noteq> - 1 then TrimSpace L (take (nat idx) ip) else ip)
                  else (let ip' = Header (Req c) ''X-Real-IP''
                        in if ip' \<noteq> [] then ip' else remoteIP))
         else remoteIP)"

subsection \<open>The middleware\<close>

text \<open>The defaults that \<open>RateLimitWithConfig\<close> sets before it builds the limiter.\<close>

definition RateLimit_defaults :: "('ip, 'net) golib \<Rightarrow> RateLimiterConfig \<Rightarrow> RateLimiterConfig" where
  "RateLimit_defaults L cfg =
     (let c1 = (if rl_Max cfg \<le> 0 then cfg\<lparr>rl_Max := 100\<rparr> else cfg);
          c2 = (if rl_Window c1 \<le> 0 then c1\<lparr>rl_Window := Minute\<rparr> else c1);
          c3 = (if rl_KeyFunc c2 = None then c2\<lparr>rl_KeyFunc := Some defaultKeyFunc\<rparr> else c2);
          c4 = (if rl_StatusCode c3 = 0 then c3\<lparr>rl_StatusCode := 429\<rparr> else c3);
          c5 = (if rl_ErrorMessage c4 = []
                then c4\<lparr>rl_ErrorMessage :=
                       ''Rate limit exceeded. Maximum '' @ Sprintf_d (rl_Max c4)
                         @ '' requests per '' @ DurationString L (rl_Window c4)\<rparr>
                else c4)
      in if length (rl_TrustedProxies c5) > 0
         then c5\<lparr>rl_KeyFunc := Some (keyFuncWithTrustedProxies L (rl_TrustedProxies c5))\<rparr>
         else c5)"

text \<open>
  \<open>time.Until(t)\<close> is \<open>t.Sub(time.Now())\<close>. \<open>Duration.Seconds\<close> adds the whole seconds and the
  fraction of the remaining nanoseconds (Go's \<open>/\<close> and \<open>%\<close> truncate towards zero), here
  over the reals, without the rounding of \<open>float64\<close>; the conversion \<open>int(f)\<close> drops the
  fraction, towards zero.
  \<open>Time.Unix\<close> is the number of whole seconds of the reading.
\<close>

definition time_Until :: "time \<Rightarrow> time \<Rightarrow> duration" where
  "time_Until t now = time_Sub t now"

definition Duration_Seconds :: "duration \<Rightarrow> real" where
  "Duration_Seconds d = of_int (d sdiv Second) + of_int (d smod Second) / 1000000000"

definition go_int :: "real \<Rightarrow> int" where
  "go_int f = (if f \<ge> 0 then \<lfloor>f\<rfloor> else \<lceil>f\<rceil>)"

definition time_Unix :: "time \<Rightarrow> int" where
  "time_Unix t = t div Second"

text \<open>
  The handler that \<open>RateLimitWithConfig\<close> returns, for a configuration with the defaults
  set. \<open>now\<close> is the clock reading inside \<open>allow\<close>, \<open>now'\<close> the later one of \<open>time.Until\<close>.
  The result says whether the handler goes on with \<open>c.Next()\<close>. \<open>skipRequest\<close> is the test
  \<open>config.SkipFunc != nil && config.SkipFunc(c)\<close>, \<open>requestKey\<close> the call \<open>config.KeyFunc(c)\<close>.
\<close>

datatype action = CallNext | Return

definition skipRequest :: "(Context \<Rightarrow> bool) option \<Rightarrow> Context \<Rightarrow> bool" where
  "skipRequest f c = (case f of None \<Rightarrow> False | Some skip \<Rightarrow> skip c)"

definition requestKey :: "RateLimiterConfig \<Rightarrow> Context \<Rightarrow> string" where
  "requestKey cfg c = (case rl_KeyFunc cfg of None \<Rightarrow> defaultKeyFunc c | Some f \<Rightarrow> f c)"

definition RateLimit_handler ::
  "('ip, 'net) golib \<Rightarrow> RateLimiterConfig \<Rightarrow> rateLimiter \<Rightarrow> time \<Rightarrow> time \<Rightarrow> Context
     \<Rightarrow> Context \<times> rateLimiter \<times> action" where
  "RateLimit_handler L cfg limiter now now' c =
     (if skipRequest (rl_SkipFunc cfg) c
      then (c, limiter, CallNext)
      else
        (let key = requestKey cfg c;
             ((allowed, remaining, resetTime), limiter') = allow limiter now key;
             c1 = (if rl_Headers cfg
                   then SetHeader L
                          (SetHeader L
                             (SetHeader L c ''X-RateLimit-Limit'' (Sprintf_d (rl_Max cfg)))
                             ''X-RateLimit-Remaining'' (Sprintf_d remaining))
                          ''X-RateLimit-Reset'' (Sprintf_d (time_Unix resetTime))
                   else c)
         in if \<not> allowed
            then (AbortWithStatusJSON
                    (SetHeader L c1 ''Retry-After''
                       (Sprintf_d (go_int (Duration_Seconds (time_Until resetTime now')))))
                    (rl_StatusCode cfg)
                    [(''error'', JString (rl_ErrorMessage cfg)),
                     (''limit'', JInt (rl_Max cfg)),
                     (''window'', JString (DurationString L (rl_Window cfg))),
                     (''retryAt'', JString (FormatRFC3339 L resetTime))],
                  limiter', Return)
            else (c1, limiter', CallNext)))"

text \<open>
  \<open>RateLimitWithConfig\<close>: the limiter it builds, with no buckets, and the handler it returns,
  both on the configuration with the defaults set.
\<close>

definition RateLimitWithConfig ::
  "('ip, 'net) golib \<Rightarrow> RateLimiterConfig
     \<Rightarrow> rateLimiter \<times> (rateLimiter \<Rightarrow> time \<Rightarrow> time \<Rightarrow> Context \<Rightarrow> Context \<times> rateLimiter \<times> action)" where
  "RateLimitWithConfig L cfg =
     (let cfg' = RateLimit_defaults L cfg
      in (\<lparr>buckets = Map.empty, config = cfg'\<rparr>, RateLimit_handler L cfg'))"

section \<open>Deadline executor (timeout.go)\<close>

subsection \<open>The buffered writer and the real writer\<close>

record bufferedResponseWriter =
  header :: http_Header
  buf :: string
  status :: int

definition newBufferedResponseWriter :: bufferedResponseWriter where
  "newBufferedResponseWriter = \<lparr>header = [], buf = [], status = 200\<rparr>"

definition bw_Write :: "bufferedResponseWriter \<Rightarrow> string \<Rightarrow> bufferedResponseWriter" where
  "bw_Write w b = w\<lparr>buf := buf w @ b\<rparr>"

definition bw_WriteHeader :: "bufferedResponseWriter \<Rightarrow> int \<Rightarrow> bufferedResponseWriter" where
  "bw_WriteHeader w statusCode = w\<lparr>status := statusCode\<rparr>"

text \<open>
  The real \<open>http.ResponseWriter\<close> belongs to the server. The model keeps its header map and
  records the calls of \<open>WriteHeader\<close> and \<open>Write\<close> made on it, in order; a \<open>WriteHeader\<close> call
  is recorded with the header map as it is at that moment, which is what the response
  carries.
\<close>

datatype wcall = WriteHeaderCall int http_Header | WriteCall string

record ResponseWriter =
  rw_Header :: http_Header
  rw_calls :: "wcall list"

definition rw_WriteHeader :: "ResponseWriter \<Rightarrow> int \<Rightarrow> ResponseWriter" where
  "rw_WriteHeader rw statusCode =
     rw\<lparr>rw_calls := rw_calls rw @ [WriteHeaderCall statusCode (rw_Header rw)]\<rparr>"

definition rw_Write :: "ResponseWriter \<Rightarrow> string \<Rightarrow> ResponseWriter" where
  "rw_Write rw b = rw\<lparr>rw_calls := rw_calls rw @ [WriteCall b]\<rparr>"

fun is_WriteHeaderCall :: "wcall \<Rightarrow> bool" where
  "is_WriteHeaderCall (WriteHeaderCall code h) = True"
| "is_WriteHeaderCall (WriteCall b) = False"

text \<open>The number of responses started on a writer: its \<open>WriteHeader\<close> calls.\<close>

definition responses :: "ResponseWriter \<Rightarrow> nat" where
  "responses rw = length (filter is_WriteHeaderCall (rw_calls rw))"

text \<open>
  \<open>copyTo\<close>. Go leaves the order in which \<open>range\<close> visits a map open, so the order of the keys
  is an argument; \<open>range_order\<close> says that it visits every key of the map once. The inner loop
  adds the values of one key in their order.
\<close>

definition range_order :: "http_Header \<Rightarrow> string list \<Rightarrow> bool" where
  "range_order h order \<longleftrightarrow> distinct order \<and> set order = fst ` set h"

fun add_values :: "('ip, 'net) golib \<Rightarrow> string \<Rightarrow> string list \<Rightarrow> http_Header \<Rightarrow> http_Header" where
  "add_values L k [] h = h"
| "add_values L k (vv # v) h = add_values L k v (Header_Add L h k vv)"

fun copy_headers ::
  "('ip, 'net) golib \<Rightarrow> http_Header \<Rightarrow> string list \<Rightarrow> http_Header \<Rightarrow> http_Header" where
  "copy_headers L src [] h = h"
| "copy_headers L src (k # ks) h = copy_headers L src ks (add_values L k (Header_Get src k) h)"

definition copyTo ::
  "('ip, 'net) golib \<Rightarrow> string list \<Rightarrow> bufferedResponseWriter \<Rightarrow> ResponseWriter \<Rightarrow> ResponseWriter" where
  "copyTo L order w dst =
     (let dst1 = dst\<lparr>rw_Header := copy_headers L (header w) order (rw_Header dst)\<rparr>;
          dst2 = rw_WriteHeader dst1 (status w)
      in rw_Write dst2 (buf w))"

subsection \<open>Configuration\<close>

record TimeoutConfig =
  to_Timeout :: duration
  to_ErrorMessage :: string
  to_StatusCode :: int
  to_SkipFunc :: "(Context \<Rightarrow> bool) option"

definition StatusGatewayTimeout :: int where
  "StatusGatewayTimeout = 504"

definition Timeout_defaults :: "TimeoutConfig \<Rightarrow> TimeoutConfig" where
  "Timeout_defaults cfg =
     (let c1 = (if to_Timeout cfg \<le> 0 then cfg\<lparr>to_Timeout := 30 * Second\<rparr> else cfg);
          c2 = (if to_StatusCode c1 = 0 then c1\<lparr>to_StatusCode := StatusGatewayTimeout\<rparr> else c1)
      in if to_ErrorMessage c2 = [] then c2\<lparr>to_ErrorMessage := ''Request timeout''\<rparr> else c2)"

subsection \<open>The downstream task\<close>

text \<open>
  What the rest of the chain does to the writer it is given, through the three methods of
  \<open>http.ResponseWriter\<close>: changes of the map that \<open>Header()\<close> returns (\<open>Set\<close>, \<open>Add\<close>, \<open>Del\<close>, or
  a plain assignment \<open>h[k] = vs\<close>, which does not canonicalise the name), \<open>Write\<close> and
  \<open>WriteHeader\<close>. After these operations the call \<open>cp.Next()\<close> returns, panics, or never
  comes back.
\<close>

datatype hop =
    HdrSet string string
  | HdrAdd string string
  | HdrDel string
  | HdrAssign string "string list"
  | HWrite string
  | HWriteHeader int

datatype ending = Returns | Panics | Blocks

fun apply_op :: "('ip, 'net) golib \<Rightarrow> hop \<Rightarrow> bufferedResponseWriter \<Rightarrow> bufferedResponseWriter" where
  "apply_op L (HdrSet k v) w = w\<lparr>header := Header_Set L (header w) k v\<rparr>"
| "apply_op L (HdrAdd k v) w = w\<lparr>header := Header_Add L (header w) k v\<rparr>"
| "apply_op L (HdrDel k) w = w\<lparr>header := AList.delete (CanonicalMIMEHeaderKey L k) (header w)\<rparr>"
| "apply_op L (HdrAssign k vs) w = w\<lparr>header := AList.update k vs (header w)\<rparr>"
| "apply_op L (HWrite b) w = bw_Write w b"
| "apply_op L (HWriteHeader code) w = bw_WriteHeader w code"

fun apply_ops :: "('ip, 'net) golib \<Rightarrow> hop list \<Rightarrow> bufferedResponseWriter \<Rightarrow> bufferedResponseWriter" where
  "apply_ops L [] w = w"
| "apply_ops L (x # xs) w = apply_ops L xs (apply_op L x w)"

text \<open>The body and the status that a sequence of operations writes.\<close>

fun written_body :: "hop list \<Rightarrow> string" where
  "written_body [] = []"
| "written_body (HWrite b # xs) = b @ written_body xs"
| "written_body (x # xs) = written_body xs"

fun written_status :: "int \<Rightarrow> hop list \<Rightarrow> int" where
  "written_status s [] = s"
| "written_status s (HWriteHeader code # xs) = written_status code xs"
| "written_status s (x # xs) = written_status s xs"

subsection \<open>The race\<close>

text \<open>
  The state of one request inside the handler that \<open>TimeoutWithConfig\<close> returns, once the
  goroutine is launched: the real writer \<open>originalRes\<close>, the buffered writer, the writer
  \<open>c.Res\<close> points to, the abort flag of \<open>c\<close>, what the goroutine has still to do and whether
  it has closed \<open>done\<close> or recovered from a panic, and the branch of the \<open>select\<close> that the
  handler took, if it has taken one.
\<close>

datatype res_ptr = RealWriter | BufferedWriter

datatype task_status = Running | Closed | Recovered

datatype ctxerr = DeadlineExceeded | Canceled

datatype outcome = Completed | TimedOut ctxerr

record exec =
  ex_real :: ResponseWriter
  ex_buffered :: bufferedResponseWriter
  ex_Res :: res_ptr
  ex_aborted :: bool
  ex_todo :: "hop list"
  ex_ending :: ending
  ex_task :: task_status
  ex_main :: "outcome option"

text \<open>
  The handler up to the \<open>select\<close>: a skipped request goes straight to \<open>c.Next()\<close> on the real
  writer; otherwise the buffered writer replaces \<open>c.Res\<close> and the goroutine starts on the
  copy of the context.
\<close>

definition start_exec :: "ResponseWriter \<Rightarrow> bool \<Rightarrow> hop list \<Rightarrow> ending \<Rightarrow> exec" where
  "start_exec originalRes aborted ops e =
     \<lparr>ex_real = originalRes, ex_buffered = newBufferedResponseWriter, ex_Res = BufferedWriter,
      ex_aborted = aborted, ex_todo = ops, ex_ending = e, ex_task = Running, ex_main = None\<rparr>"

datatype entry = Bypass | Guarded exec

definition Timeout_enter ::
  "TimeoutConfig \<Rightarrow> Context \<Rightarrow> ResponseWriter \<Rightarrow> hop list \<Rightarrow> ending \<Rightarrow> entry" where
  "Timeout_enter cfg c originalRes ops e =
     (if skipRequest (to_SkipFunc cfg) c then Bypass
      else Guarded (start_exec originalRes (Aborted c) ops e))"

text \<open>The branch \<open>case <-ctx.Done()\<close> when the error is \<open>context.DeadlineExceeded\<close>.\<close>

definition write_timeout ::
  "('ip, 'net) golib \<Rightarrow> TimeoutConfig \<Rightarrow> ResponseWriter \<Rightarrow> ResponseWriter" where
  "write_timeout L cfg rw =
     (let rw1 = rw\<lparr>rw_Header := Header_Set L (rw_Header rw) ''Content-Type'' ''application/json''\<rparr>;
          rw2 = rw_WriteHeader rw1 (to_StatusCode cfg);
          jsonData = Marshal L [(''error'', JString (to_ErrorMessage cfg)),
                                (''timeout'', JString (DurationString L (to_Timeout cfg)))]
      in rw_Write rw2 jsonData)"

text \<open>
  One step of the request. The goroutine performs its next operation on the buffered writer,
  or ends: a normal return closes \<open>done\<close>, a panic is recovered and \<open>done\<close> stays open. The
  handler, waiting in the \<open>select\<close>, takes \<open>case <-done\<close> when \<open>done\<close> is closed (with the
  order in which \<open>copyTo\<close> ranges over the buffered header), or \<open>case <-ctx.Done()\<close> with the
  error of the context; when both are ready either may be taken. A step that cannot be
  taken is \<open>None\<close>.
\<close>

datatype event = TaskStep | TaskEnd | SelectDone "string list" | SelectCtx ctxerr

fun step :: "('ip, 'net) golib \<Rightarrow> TimeoutConfig \<Rightarrow> event \<Rightarrow> exec \<Rightarrow> exec option" where
  "step L cfg TaskStep s =
     (if ex_task s = Running
      then (case ex_todo s of
              [] \<Rightarrow> None
            | x # xs \<Rightarrow> Some (s\<lparr>ex_buffered := apply_op L x (ex_buffered s), ex_todo := xs\<rparr>))
      else None)"
| "step L cfg TaskEnd s =
     (if ex_task s = Running \<and> ex_todo s = []
      then (case ex_ending s of
              Returns \<Rightarrow> Some (s\<lparr>ex_task := Closed\<rparr>)
            | Panics \<Rightarrow> Some (s\<lparr>ex_task := Recovered\<rparr>)
            | Blocks \<Rightarrow> None)
      else None)"
| "step L cfg (SelectDone order) s =
     (if ex_main s = None \<and> ex_task s = Closed \<and> range_order (header (ex_buffered s)) order
      then Some (s\<lparr>ex_Res := RealWriter,
                   ex_real := copyTo L order (ex_buffered s) (ex_real s),
                   ex_aborted := True,
                   ex_main := Some Completed\<rparr>)
      else None)"
| "step L cfg (SelectCtx err) s =
     (if ex_main s = None
      then Some (s\<lparr>ex_Res := RealWriter,
                   ex_real := (if err = DeadlineExceeded then write_timeout L cfg (ex_real s)
                               else ex_real s),
                   ex_aborted := True,
                   ex_main := Some (TimedOut err)\<rparr>)
      else None)"

fun run :: "('ip, 'net) golib \<Rightarrow> TimeoutConfig \<Rightarrow> event list \<Rightarrow> exec \<Rightarrow> exec option" where
  "run L cfg [] s = Some s"
| "run L cfg (e # es) s = (case step L cfg e s of None \<Rightarrow> None | Some s' \<Rightarrow> run L cfg es s')"

text \<open>
  What holds in every state that a request reaches from \<open>start_exec\<close>: the goroutine works
  through its operations on the buffered writer only; \<open>done\<close> is closed only after a normal
  return; and the real writer is as the handler found it until a branch of the \<open>select\<close> is
  taken, after which it holds the copy of the buffered response, the timeout response, or
  (on cancellation) nothing new.
\<close>

definition exec_inv ::
  "('ip, 'net) golib \<Rightarrow> TimeoutConfig \<Rightarrow> ResponseWriter \<Rightarrow> hop list \<Rightarrow> ending \<Rightarrow> exec \<Rightarrow> bool" where
  "exec_inv L cfg real0 ops e s \<longleftrightarrow>
     apply_ops L (ex_todo s) (ex_buffered s) = apply_ops L ops newBufferedResponseWriter
   \<and> ex_ending s = e
   \<and> (ex_task s = Closed \<longrightarrow> ex_todo s = [] \<and> e = Returns)
   \<and> (ex_task s = Recovered \<longrightarrow> ex_todo s = [] \<and> e = Panics)
   \<and> (case ex_main s of
        None \<Rightarrow> ex_real s = real0 \<and> ex_Res s = BufferedWriter
      | Some Completed \<Rightarrow>
          ex_task s = Closed \<and> ex_Res s = RealWriter \<and> ex_aborted s
        \<and> (\<exists>order. range_order (header (apply_ops L ops newBufferedResponseWriter)) order
              \<and> ex_real s = copyTo L order (apply_ops L ops newBufferedResponseWriter) real0)
      | Some (TimedOut err) \<Rightarrow>
          ex_Res s = RealWriter \<and> ex_aborted s
        \<and> ex_real s = (if err = DeadlineExceeded then write_timeout L cfg real0 else real0))"

section \<open>The locks of \<open>allow\<close>\<close>

text \<open>
  \<open>allow\<close> once more, now statement by statement, for callers that run concurrently. A
  caller is at one of the points below: before \<open>rl.mu.Lock()\<close>, before \<open>time.Now()\<close>, before
  the lookup (and creation) of the bucket, before \<open>b.mu.Lock()\<close>, before the reset of an
  elapsed window, before the test \<open>b.tokens > 0\<close>, before the decrement, before the deferred
  \<open>b.mu.Unlock()\<close>, before the deferred \<open>rl.mu.Unlock()\<close> (deferred calls run last in, first
  out), or it has returned. The shared state is the limiter with the owner of the directory
  lock \<open>rl.mu\<close> and the owner of each bucket's lock; a bucket is named by its key.
\<close>

datatype pc =
    AtLockDir | AtNow | AtLookup | AtLockBucket | AtReset | AtCheck | AtDecrement
  | AtUnlockBucket | AtUnlockDir | AtReturned

record conc =
  c_limiter :: rateLimiter
  c_dirLock :: "nat option"
  c_bucketLock :: "string \<Rightarrow> nat option"
  c_pc :: "nat \<Rightarrow> pc"
  c_now :: "nat \<Rightarrow> time"
  c_resetTime :: "nat \<Rightarrow> time"
  c_result :: "nat \<Rightarrow> (bool \<times> int \<times> time) option"

definition cinit :: "rateLimiter \<Rightarrow> conc" where
  "cinit rl =
     \<lparr>c_limiter = rl, c_dirLock = None, c_bucketLock = (\<lambda>k. None), c_pc = (\<lambda>t. AtLockDir),
      c_now = (\<lambda>t. 0), c_resetTime = (\<lambda>t. 0), c_result = (\<lambda>t. None)\<rparr>"

definition set_bucket :: "conc \<Rightarrow> string \<Rightarrow> bucket \<Rightarrow> rateLimiter" where
  "set_bucket s key b = (c_limiter s)\<lparr>buckets := (buckets (c_limiter s))(key \<mapsto> b)\<rparr>"

text \<open>
  One step of caller \<open>t\<close>, whose key is \<open>keys t\<close>; \<open>clock\<close> is what \<open>time.Now()\<close> reads if the
  step is that call. Taking a lock that is held is not a step (\<open>None\<close>): the caller waits.
\<close>

definition cstep :: "(nat \<Rightarrow> string) \<Rightarrow> time \<Rightarrow> nat \<Rightarrow> conc \<Rightarrow> conc option" where
  "cstep keys clock t s =
     (let key = keys t; cfg = config (c_limiter s)
      in case c_pc s t of
           AtLockDir \<Rightarrow>
             (if c_dirLock s = None
              then Some (s\<lparr>c_dirLock := Some t, c_pc := (c_pc s)(t := AtNow)\<rparr>)
              else None)
         | AtNow \<Rightarrow> Some (s\<lparr>c_now := (c_now s)(t := clock), c_pc := (c_pc s)(t := AtLookup)\<rparr>)
         | AtLookup \<Rightarrow>
             (case buckets (c_limiter s) key of
                None \<Rightarrow>
                  Some (s\<lparr>c_limiter := set_bucket s key \<lparr>tokens = rl_Max cfg, lastReset = c_now s t\<rparr>,
                          c_pc := (c_pc s)(t := AtLockBucket)\<rparr>)
              | Some b \<Rightarrow> Some (s\<lparr>c_pc := (c_pc s)(t := AtLockBucket)\<rparr>))
         | AtLockBucket \<Rightarrow>
             (if c_bucketLock s key = None
              then Some (s\<lparr>c_bucketLock := (c_bucketLock s)(key := Some t),
                           c_pc := (c_pc s)(t := AtReset)\<rparr>)
              else None)
         | AtReset \<Rightarrow>
             (case buckets (c_limiter s) key of
                None \<Rightarrow> None
              | Some b \<Rightarrow>
                  (if time_Sub (c_now s t) (lastReset b) \<ge> rl_Window cfg
                   then Some (s\<lparr>c_limiter :=
                                  set_bucket s key (b\<lparr>tokens := rl_Max cfg, lastReset := c_now s t\<rparr>),
                                c_pc := (c_pc s)(t := AtCheck)\<rparr>)
                   else Some (s\<lparr>c_pc := (c_pc s)(t := AtCheck)\<rparr>)))
         | AtCheck \<Rightarrow>
             (case buckets (c_limiter s) key of
                None \<Rightarrow> None
              | Some b \<Rightarrow>
                  (let resetTime = time_Add (lastReset b) (rl_Window cfg)
                   in if tokens b > 0
                      then Some (s\<lparr>c_resetTime := (c_resetTime s)(t := resetTime),
                                   c_pc := (c_pc s)(t := AtDecrement)\<rparr>)
                      else Some (s\<lparr>c_resetTime := (c_resetTime s)(t := resetTime),
                                   c_result := (c_result s)(t \<mapsto> (False, 0, resetTime)),
                                   c_pc := (c_pc s)(t := AtUnlockBucket)\<rparr>)))
         | AtDecrement \<Rightarrow>
             (case buckets (c_limiter s) key of
                None \<Rightarrow> None
              | Some b \<Rightarrow>
                  Some (s\<lparr>c_limiter := set_bucket s key (b\<lparr>tokens := tokens b - 1\<rparr>),
                          c_result := (c_result s)(t \<mapsto> (True, tokens b - 1, c_resetTime s t)),
                          c_pc := (c_pc s)(t := AtUnlockBucket)\<rparr>))
         | AtUnlockBucket \<Rightarrow>
             Some (s\<lparr>c_bucketLock := (c_bucketLock s)(key := None),
                     c_pc := (c_pc s)(t := AtUnlockDir)\<rparr>)
         | AtUnlockDir \<Rightarrow> Some (s\<lparr>c_dirLock := None, c_pc := (c_pc s)(t := AtReturned)\<rparr>)
         | AtReturned \<Rightarrow> None)"

text \<open>A schedule names, step by step, the caller that moves and the clock reading.\<close>

fun crun :: "(nat \<Rightarrow> string) \<Rightarrow> (nat \<times> time) list \<Rightarrow> conc \<Rightarrow> conc option" where
  "crun keys [] s = Some s"
| "crun keys ((t, clock) # sched) s =
     (case cstep keys clock t s of None \<Rightarrow> None | Some s' \<Rightarrow> crun keys sched s')"

text \<open>
  A caller is inside the call between taking and releasing the directory lock, and inside
  the bucket section between taking and releasing the bucket's lock.
\<close>

fun in_call :: "pc \<Rightarrow> bool" where
  "in_call AtLockDir = False"
| "in_call AtReturned = False"
| "in_call p = True"

fun in_bucket :: "pc \<Rightarrow> bool" where
  "in_bucket AtReset = True"
| "in_bucket AtCheck = True"
| "in_bucket AtDecrement = True"
| "in_bucket AtUnlockBucket = True"
| "in_bucket p = False"

definition cinv :: "(nat \<Rightarrow> string) \<Rightarrow> conc \<Rightarrow> bool" where
  "cinv keys s \<longleftrightarrow>
     (\<forall>t. in_call (c_pc s t) \<longleftrightarrow> c_dirLock s = Some t)
   \<and> (\<forall>t k. c_bucketLock s k = Some t \<longleftrightarrow> in_bucket (c_pc s t) \<and> keys t = k)
   \<and> (\<forall>t. c_pc s t \<in> {AtLockBucket, AtReset, AtCheck, AtDecrement} \<longrightarrow>
          buckets (c_limiter s) (keys t) \<noteq> None)
   \<and> (\<forall>t b. c_pc s t = AtDecrement \<and> buckets (c_limiter s) (keys t) = Some b \<longrightarrow>
          0 < tokens b
        \<and> c_resetTime s t = time_Add (lastReset b) (rl_Window (config (c_limiter s))))"

section \<open>Example inputs\<close>

text \<open>
  A stand-in for the library functions, used to run the model on concrete requests: one
  network \<open>10.0.0.0/8\<close>, addresses as their text, header names left as written, durations
  and times printed as their nanoseconds, objects marshalled as \<open>key=value;\<close>.
\<close>

definition lib0 :: "(string, string) golib" where
  "lib0 = \<lparr>ParseCIDR = (\<lambda>s. if s = ''10.0.0.0/8'' then Some ''10.'' else None),
           ParseIP = (\<lambda>s. if s = [] then None else Some s),
           Contains = (\<lambda>n ip. take (length n) ip = n),
           TrimSpace = filter (\<lambda>ch. ch \<noteq> CHR '' ''),
           CanonicalMIMEHeaderKey = (\<lambda>k. k),
           DurationString = (\<lambda>d. Sprintf_d d @ ''ns''),
           FormatRFC3339 = (\<lambda>t. Sprintf_d t),
           Marshal = (\<lambda>obj. concat (map (\<lambda>(k, v). k @ ''='' @
                        (case v of JString x \<Rightarrow> x | JInt i \<Rightarrow> Sprintf_d i) @ '';'') obj))\<rparr>"

definition req0 :: request where
  "req0 = \<lparr>RemoteAddr = ''203.0.113.9:4711'',
           Header = (\<lambda>k. if k = ''X-Forwarded-For'' then ''1.2.3.4, 10.0.0.1'' else [])\<rparr>"

definition ctx0 :: Context where
  "ctx0 = \<lparr>Req = req0, ResHeader = [], Aborted = False, Reply = None\<rparr>"

definition rl3 :: rateLimiter where
  "rl3 = \<lparr>buckets = Map.empty,
          config = \<lparr>rl_Max = 3, rl_Window = Second, rl_KeyFunc = None, rl_ErrorMessage = ''x'',
                    rl_StatusCode = 429, rl_SkipFunc = None, rl_Headers = True,
                    rl_TrustedProxies = []\<rparr>\<rparr>"

definition rl0 :: rateLimiter where
  "rl0 = rl3\<lparr>buckets := [''k'' \<mapsto> \<lparr>tokens = 0, lastReset = 5\<rparr>]\<rparr>"

definition cfg1 :: RateLimiterConfig where
  "cfg1 = \<lparr>rl_Max = 1, rl_Window = Second, rl_KeyFunc = Some defaultKeyFunc,
           rl_ErrorMessage = ''slow down'', rl_StatusCode = 429, rl_SkipFunc = None,
           rl_Headers = False, rl_TrustedProxies = []\<rparr>"

definition cfg2 :: RateLimiterConfig where
  "cfg2 = cfg1\<lparr>rl_Headers := True\<rparr>"

definition lim1 :: rateLimiter where
  "lim1 = \<lparr>buckets = [''203.0.113.9:4711'' \<mapsto> \<lparr>tokens = 0, lastReset = 0\<rparr>], config = cfg1\<rparr>"

definition tcfg0 :: TimeoutConfig where
  "tcfg0 = Timeout_defaults
             \<lparr>to_Timeout = 100000000, to_ErrorMessage = [], to_StatusCode = 0, to_SkipFunc = None\<rparr>"

definition rw0 :: ResponseWriter where
  "rw0 = \<lparr>rw_Header = [(''X-Request-Id'', [''7''])], rw_calls = []\<rparr>"

definition ex0 :: exec where
  "ex0 = start_exec rw0 False [HWriteHeader 201, HdrAdd ''Set-Cookie'' ''a=1'',
                               HdrAdd ''Set-Cookie'' ''b=2'', HWrite ''ok''] Returns"

definition ex1 :: exec where
  "ex1 = start_exec rw0 False [HWriteHeader 201, HWrite ''ok''] Panics"

definition keys2 :: "nat \<Rightarrow> string" where
  "keys2 t = (if t = 0 then ''a'' else ''b'')"

definition lim2 :: rateLimiter where
  "lim2 = \<lparr>buckets = [''a'' \<mapsto> \<lparr>tokens = 1, lastReset = 0\<rparr>, ''b'' \<mapsto> \<lparr>tokens = 1, lastReset = 0\<rparr>],
           config = cfg1\<rparr>"

section \<open>Properties of the limiter\<close>

subsection \<open>Clock arithmetic\<close>

lemma time_Sub_lt:
  "0 < W \<Longrightarrow> W \<le> maxDuration \<Longrightarrow> time_Sub t u < W \<longleftrightarrow> t - u < W"
  by (auto simp: time_Sub_def maxDuration_def minDuration_def)

lemma time_Sub_ge:
  "0 < W \<Longrightarrow> W \<le> maxDuration \<Longrightarrow> W \<le> time_Sub t u \<longleftrightarrow> W \<le> t - u"
  by (auto simp: time_Sub_def maxDuration_def minDuration_def)

text \<open>The conversion of a duration to whole seconds is the truncating division.\<close>

lemma go_int_Seconds: "go_int (Duration_Seconds d) = d sdiv Second"
proof (cases "d \<ge> 0")
  case True
  let ?q = "d div 1000000000" and ?r = "d mod 1000000000"
  have s: "d sdiv Second = ?q" "d smod Second = ?r"
    using True by (simp_all add: signed_divide_int_def signed_modulo_int_def Second_def sgn_if)
  have r: "0 \<le> ?r" "?r < 1000000000" by simp_all
  have "\<lfloor>real_of_int ?q + real_of_int ?r / 1000000000\<rfloor> = ?q"
    using r by (intro floor_unique) auto
  moreover have "0 \<le> real_of_int ?q + real_of_int ?r / 1000000000"
    using True r by (simp add: pos_imp_zdiv_nonneg_iff)
  ultimately show ?thesis
    unfolding go_int_def Duration_Seconds_def s by simp
next
  case False
  let ?q = "(- d) div 1000000000" and ?r = "(- d) mod 1000000000"
  have s: "d sdiv Second = - ?q" "d smod Second = - ?r"
    using False by (simp_all add: signed_divide_int_def signed_modulo_int_def Second_def sgn_if)
  have r: "0 \<le> ?r" "?r < 1000000000" by simp_all
  have q: "0 \<le> ?q" using False by (simp add: pos_imp_zdiv_nonneg_iff)
  let ?f = "real_of_int (- ?q) + real_of_int (- ?r) / 1000000000"
  have c: "\<lceil>?f\<rceil> = - ?q"
    using r by (intro ceiling_unique) auto
  have f: "\<lfloor>?f\<rfloor> = - ?q" if "?f \<ge> 0"
  proof -
    have "?f \<le> 0" using q r by simp
    with that have z: "?f = 0" by simp
    have "?q = 0"
    proof -
      have "real_of_int ?q + real_of_int ?r / 1000000000 = 0" using z by simp
      moreover have "0 \<le> real_of_int ?q" "0 \<le> real_of_int ?r / 1000000000"
        using q r by simp_all
      ultimately have "real_of_int ?q = 0" by linarith
      then show ?thesis by simp
    qed
    with z show ?thesis by simp
  qed
  show ?thesis
    unfolding go_int_def Duration_Seconds_def s using c f by auto
qed


subsection \<open>One call of \<open>allow\<close>\<close>

lemma allow_fresh:
  assumes "buckets rl key = None"
  shows "allow rl t0 key =
    (if 0 < rl_Max (config rl)
     then ((True, rl_Max (config rl) - 1, t0 + rl_Window (config rl)),
           rl\<lparr>buckets := (buckets rl)(key \<mapsto>
                 \<lparr>tokens = rl_Max (config rl) - 1, lastReset = t0\<rparr>)\<rparr>)
     else ((False, 0, t0 + rl_Window (config rl)),
           rl\<lparr>buckets := (buckets rl)(key \<mapsto>
                 \<lparr>tokens = rl_Max (config rl), lastReset = t0\<rparr>)\<rparr>))"
  using assms by (simp add: allow_def Let_def time_Add_def)

lemma allow_in_window:
  assumes "buckets rl key = Some b" "time_Sub t (lastReset b) < rl_Window (config rl)"
  shows "allow rl t key =
    (if tokens b > 0
     then ((True, tokens b - 1, lastReset b + rl_Window (config rl)),
           rl\<lparr>buckets := (buckets rl)(key \<mapsto> b\<lparr>tokens := tokens b - 1\<rparr>)\<rparr>)
     else ((False, 0, lastReset b + rl_Window (config rl)),
           rl\<lparr>buckets := (buckets rl)(key \<mapsto> b)\<rparr>))"
  using assms by (simp add: allow_def Let_def time_Add_def)

lemma allow_rollover:
  assumes "buckets rl key = Some b" "rl_Window (config rl) \<le> time_Sub t (lastReset b)"
    "0 < rl_Max (config rl)"
  shows "allow rl t key =
     ((True, rl_Max (config rl) - 1, t + rl_Window (config rl)),
      rl\<lparr>buckets := (buckets rl)(key \<mapsto>
            \<lparr>tokens = rl_Max (config rl) - 1, lastReset = t\<rparr>)\<rparr>)"
  using assms by (cases b) (simp add: allow_def Let_def time_Add_def)

text \<open>The constructor hands \<open>allow\<close> a positive limit and a positive window.\<close>

lemma RateLimit_defaults_positive:
  "0 < rl_Max (RateLimit_defaults L cfg) \<and> 0 < rl_Window (RateLimit_defaults L cfg)"
  by (simp add: RateLimit_defaults_def Let_def Minute_def Second_def)

lemma RateLimit_defaults_keeps:
  "0 < rl_Max cfg \<Longrightarrow> rl_Max (RateLimit_defaults L cfg) = rl_Max cfg"
  "0 < rl_Window cfg \<Longrightarrow> rl_Window (RateLimit_defaults L cfg) = rl_Window cfg"
  "rl_Headers (RateLimit_defaults L cfg) = rl_Headers cfg"
  by (simp_all add: RateLimit_defaults_def Let_def)

lemma RateLimitWithConfig_limiter:
  "buckets (fst (RateLimitWithConfig L cfg)) key = None
   \<and> 0 < rl_Max (config (fst (RateLimitWithConfig L cfg)))
   \<and> 0 < rl_Window (config (fst (RateLimitWithConfig L cfg)))"
  using RateLimit_defaults_positive[of L cfg] by (simp add: RateLimitWithConfig_def Let_def)

subsection \<open>Calls within one window\<close>

lemma upt_Suc_shift: "[0..<Suc n] = 0 # map Suc [0..<n]"
  by (simp add: upt_conv_Cons map_Suc_upt del: upt_Suc)

lemma allow_many_in_window:
  assumes "buckets rl key = Some b" "0 \<le> tokens b"
    "\<forall>t\<in>set ts. time_Sub t (lastReset b) < rl_Window (config rl)"
  shows "fst (allow_many rl key ts) =
           map (\<lambda>i. (int i < tokens b, if int i < tokens b then tokens b - 1 - int i else 0,
                      lastReset b + rl_Window (config rl))) [0..<length ts]
       \<and> buckets (snd (allow_many rl key ts)) key
           = Some (b\<lparr>tokens := max 0 (tokens b - int (length ts))\<rparr>)
       \<and> config (snd (allow_many rl key ts)) = config rl"
  using assms
proof (induction ts arbitrary: rl b)
  case Nil
  then show ?case by simp
next
  case (Cons t ts)
  have m: "[0..<length (t # ts)] = 0 # map Suc [0..<length ts]"
    using upt_Suc_shift by simp
  show ?case
  proof (cases "tokens b > 0")
    case True
    let ?b = "b\<lparr>tokens := tokens b - 1\<rparr>"
    let ?rl = "rl\<lparr>buckets := (buckets rl)(key \<mapsto> ?b)\<rparr>"
    have a: "allow rl t key = ((True, tokens b - 1, lastReset b + rl_Window (config rl)), ?rl)"
      using allow_in_window[OF Cons.prems(1)] Cons.prems(3) True by simp
    have ih: "fst (allow_many ?rl key ts) =
           map (\<lambda>i. (int i < tokens ?b, if int i < tokens ?b then tokens ?b - 1 - int i else 0,
                      lastReset ?b + rl_Window (config ?rl))) [0..<length ts]
       \<and> buckets (snd (allow_many ?rl key ts)) key
           = Some (?b\<lparr>tokens := max 0 (tokens ?b - int (length ts))\<rparr>)
       \<and> config (snd (allow_many ?rl key ts)) = config ?rl"
      using Cons.prems True by (intro Cons.IH) auto
    show ?thesis
      unfolding m using a ih True
      by (auto simp: split_beta Let_def comp_def max_def)
  next
    case False
    let ?rl = "rl\<lparr>buckets := (buckets rl)(key \<mapsto> b)\<rparr>"
    have a: "allow rl t key = ((False, 0, lastReset b + rl_Window (config rl)), ?rl)"
      using allow_in_window[OF Cons.prems(1)] Cons.prems(3) False by simp
    have ih: "fst (allow_many ?rl key ts) =
           map (\<lambda>i. (int i < tokens b, if int i < tokens b then tokens b - 1 - int i else 0,
                      lastReset b + rl_Window (config ?rl))) [0..<length ts]
       \<and> buckets (snd (allow_many ?rl key ts)) key
           = Some (b\<lparr>tokens := max 0 (tokens b - int (length ts))\<rparr>)
       \<and> config (snd (allow_many ?rl key ts)) = config ?rl"
      using Cons.prems by (intro Cons.IH) auto
    show ?thesis
      unfolding m using a ih False Cons.prems(2)
      by (auto simp: split_beta Let_def comp_def max_def)
  qed
qed

text \<open>
  C2. A limiter with limit \<open>N > 0\<close> and window \<open>W > 0\<close> (what the constructor sets up), and a
  key without a bucket. The first call, at \<open>t0\<close>, opens the window. Of the calls made while
  less than \<open>W\<close> has passed since \<open>t0\<close>, call number \<open>i\<close> (counted from zero) is allowed exactly
  when \<open>i < N\<close>, with \<open>N - 1 - i\<close> remaining; every later one is denied with remaining \<open>0\<close>;
  all of them report the reset time \<open>t0 + W\<close>. A call made at \<open>t\<close>, \<open>W\<close> or more after \<open>t0\<close>,
  is allowed with \<open>N - 1\<close> remaining and reset time \<open>t + W\<close>.
\<close>

theorem allow_window_sequence:
  assumes N: "0 < rl_Max (config rl)"
    and W: "0 < rl_Window (config rl)" "rl_Window (config rl) \<le> maxDuration"
    and fresh: "buckets rl key = None"
    and inw: "\<forall>t\<in>set ts. t - t0 < rl_Window (config rl)"
  shows "fst (allow_many rl key (t0 # ts)) =
           map (\<lambda>i. (int i < rl_Max (config rl),
                      if int i < rl_Max (config rl) then rl_Max (config rl) - 1 - int i else 0,
                      t0 + rl_Window (config rl))) [0..<Suc (length ts)]
       \<and> (\<forall>t. rl_Window (config rl) \<le> t - t0 \<longrightarrow>
             fst (allow (snd (allow_many rl key (t0 # ts))) t key)
               = (True, rl_Max (config rl) - 1, t + rl_Window (config rl)))"
proof -
  let ?N = "rl_Max (config rl)" and ?W = "rl_Window (config rl)"
  let ?b = "\<lparr>tokens = ?N - 1, lastReset = t0\<rparr>"
  let ?rl = "rl\<lparr>buckets := (buckets rl)(key \<mapsto> ?b)\<rparr>"
  have first: "allow rl t0 key = ((True, ?N - 1, t0 + ?W), ?rl)"
    using allow_fresh[OF fresh] N by simp
  have inw': "\<forall>t\<in>set ts. time_Sub t (lastReset ?b) < rl_Window (config ?rl)"
    using inw W by (simp add: time_Sub_lt)
  have rest: "fst (allow_many ?rl key ts) =
           map (\<lambda>i. (int i < tokens ?b, if int i < tokens ?b then tokens ?b - 1 - int i else 0,
                      lastReset ?b + rl_Window (config ?rl))) [0..<length ts]
       \<and> buckets (snd (allow_many ?rl key ts)) key
           = Some (?b\<lparr>tokens := max 0 (tokens ?b - int (length ts))\<rparr>)
       \<and> config (snd (allow_many ?rl key ts)) = config ?rl"
    using N inw' by (intro allow_many_in_window) auto
  have seq: "fst (allow_many rl key (t0 # ts)) =
           map (\<lambda>i. (int i < ?N, if int i < ?N then ?N - 1 - int i else 0, t0 + ?W))
             [0..<Suc (length ts)]"
    unfolding upt_Suc_shift using first rest N by (auto simp: split_beta Let_def comp_def)
  have fin: "snd (allow_many rl key (t0 # ts)) = snd (allow_many ?rl key ts)"
    using first by (simp add: split_beta Let_def)
  have later: "fst (allow (snd (allow_many rl key (t0 # ts))) t key) = (True, ?N - 1, t + ?W)"
    if "?W \<le> t - t0" for t
  proof -
    let ?s = "snd (allow_many ?rl key ts)"
    let ?b' = "?b\<lparr>tokens := max 0 (tokens ?b - int (length ts))\<rparr>"
    have b: "buckets ?s key = Some ?b'" and c: "config ?s = config rl"
      using rest by simp_all
    have "rl_Window (config ?s) \<le> time_Sub t (lastReset ?b')"
      using that W c by (simp add: time_Sub_ge)
    from allow_rollover[OF b this] N c show ?thesis
      unfolding fin by simp
  qed
  show ?thesis using seq later by blast
qed

theorem allow_window_sequence_witness:
  "fst (allow_many rl3 ''k'' [0, 1, 2, 3]) =
     [(True, 2, Second), (True, 1, Second), (True, 0, Second), (False, 0, Second)]
   \<and> fst (allow (snd (allow_many rl3 ''k'' [0, 1, 2, 3])) Second ''k'') = (True, 2, 2 * Second)"
proof -
  have h: "0 < rl_Max (config rl3)" "0 < rl_Window (config rl3)"
    "rl_Window (config rl3) \<le> maxDuration" "buckets rl3 ''k'' = None"
    "\<forall>t\<in>set [1, 2, 3]. t - 0 < rl_Window (config rl3)"
    by (simp_all add: rl3_def Second_def maxDuration_def)
  have c: "rl_Max (config rl3) = 3" "rl_Window (config rl3) = Second"
    by (simp_all add: rl3_def)
  from allow_window_sequence[OF h] show ?thesis
    unfolding c by (simp add: upt_rec Second_def)
qed

text \<open>
  C10. A bucket whose window has not elapsed (\<open>now.Sub(lastReset) < Window\<close>) and whose token
  count is zero: \<open>allow\<close> answers \<open>(false, 0, lastReset + Window)\<close> and the limiter after the
  call is the limiter before it, so neither the token count nor the window start moves.
\<close>

theorem allow_denied_unchanged:
  assumes "buckets rl key = Some b"
    and "time_Sub now (lastReset b) < rl_Window (config rl)"
    and "tokens b = 0"
  shows "allow rl now key = ((False, 0, time_Add (lastReset b) (rl_Window (config rl))), rl)"
proof -
  have "(buckets rl)(key \<mapsto> b) = buckets rl"
    using assms(1) by (rule map_upd_triv)
  then show ?thesis
    using assms by (simp add: allow_def Let_def)
qed

theorem allow_denied_unchanged_witness:
  "allow rl0 7 ''k'' = ((False, 0, 5 + Second), rl0)"
proof -
  have "buckets rl0 ''k'' = Some \<lparr>tokens = 0, lastReset = 5\<rparr>"
    by (simp add: rl0_def)
  moreover have "time_Sub 7 (lastReset \<lparr>tokens = 0, lastReset = 5\<rparr>) < rl_Window (config rl0)"
    by (simp add: rl0_def rl3_def time_Sub_def Second_def maxDuration_def minDuration_def)
  ultimately show ?thesis
    using allow_denied_unchanged[of rl0 "''k''" "\<lparr>tokens = 0, lastReset = 5\<rparr>" 7]
    by (simp add: time_Add_def rl0_def rl3_def)
qed

subsection \<open>The rate-limit key\<close>

lemma isTrusted_iff:
  "isTrusted L r ps \<longleftrightarrow> (\<exists>p\<in>set ps. r = p \<or> isIPInCIDR L r p)"
  by (induction ps) auto

text \<open>
  C6. When the peer address equals no entry of the trusted-proxy list and lies in none of
  its networks, the key is the peer address, whatever the request headers hold; so two
  requests from that peer get the same key. The default key function is the peer address
  for every request.
\<close>

theorem untrusted_peer_key:
  assumes "\<forall>p\<in>set proxies. RemoteAddr (Req c) \<noteq> p \<and> \<not> isIPInCIDR L (RemoteAddr (Req c)) p"
  shows "keyFuncWithTrustedProxies L proxies c = RemoteAddr (Req c)
       \<and> defaultKeyFunc c = RemoteAddr (Req c)
       \<and> (RemoteAddr (Req c') = RemoteAddr (Req c) \<longrightarrow>
            keyFuncWithTrustedProxies L proxies c' = keyFuncWithTrustedProxies L proxies c
          \<and> defaultKeyFunc c' = defaultKeyFunc c)"
proof -
  have "\<not> isTrusted L (RemoteAddr (Req c)) proxies"
    using assms by (simp add: isTrusted_iff)
  then show ?thesis
    by (simp add: keyFuncWithTrustedProxies_def defaultKeyFunc_def Let_def)
qed

theorem untrusted_peer_key_witness:
  "keyFuncWithTrustedProxies lib0 [''10.0.0.0/8'', ''192.168.1.1''] ctx0 = ''203.0.113.9:4711''
   \<and> keyFuncWithTrustedProxies lib0 [''10.0.0.0/8'', ''192.168.1.1'']
        (ctx0\<lparr>Req := req0\<lparr>Header := (\<lambda>k. [])\<rparr>\<rparr>) = ''203.0.113.9:4711''"
proof -
  have h: "\<forall>p\<in>set [''10.0.0.0/8'', ''192.168.1.1''].
      RemoteAddr (Req ctx0) \<noteq> p \<and> \<not> isIPInCIDR lib0 (RemoteAddr (Req ctx0)) p"
    by (simp add: ctx0_def req0_def isIPInCIDR_def lib0_def LastIndex_def Let_def)
  from untrusted_peer_key[OF h, of "ctx0\<lparr>Req := req0\<lparr>Header := (\<lambda>k. [])\<rparr>\<rparr>"]
  show ?thesis by (simp add: ctx0_def req0_def)
qed

subsection \<open>Headers and payload of the middleware\<close>


lemma keys_Header_Set:
  "fst ` set (Header_Set L h k v) = insert (CanonicalMIMEHeaderKey L k) (fst ` set h)"
  by (simp add: Header_Set_def dom_update)

lemma allow_lim1: "allow lim1 500000000 ''203.0.113.9:4711'' = ((False, 0, 1000000000), lim1)"
  by (simp add: allow_def lim1_def cfg1_def Let_def time_Sub_def time_Add_def Second_def
      maxDuration_def minDuration_def)

lemma requestKey_ctx0:
  "requestKey cfg1 ctx0 = ''203.0.113.9:4711''" "requestKey cfg2 ctx0 = ''203.0.113.9:4711''"
  by (simp_all add: requestKey_def cfg1_def cfg2_def defaultKeyFunc_def ctx0_def req0_def)




text \<open>
  C8, as the code has it. For a request that is not skipped: with the toggle on, the headers
  \<open>X-RateLimit-Limit\<close>, \<open>X-RateLimit-Remaining\<close> and \<open>X-RateLimit-Reset\<close> are set, and
  \<open>Retry-After\<close> on denial. With the toggle off, an admitted request leaves the response
  headers as they were, and a denied request still gets \<open>Retry-After\<close>, and only that: the
  toggle guards the three \<open>X-RateLimit\<close> headers, not \<open>Retry-After\<close>.
\<close>

theorem rate_limit_headers_toggle:
  assumes "\<not> skipRequest (rl_SkipFunc cfg) c"
    and "allow limiter now (requestKey cfg c) = ((allowed, remaining, resetTime), limiter')"
  shows "(rl_Headers cfg \<longrightarrow>
            CanonicalMIMEHeaderKey L ''X-RateLimit-Limit''
              \<in> fst ` set (ResHeader (fst (RateLimit_handler L cfg limiter now now' c)))
          \<and> CanonicalMIMEHeaderKey L ''X-RateLimit-Remaining''
              \<in> fst ` set (ResHeader (fst (RateLimit_handler L cfg limiter now now' c)))
          \<and> CanonicalMIMEHeaderKey L ''X-RateLimit-Reset''
              \<in> fst ` set (ResHeader (fst (RateLimit_handler L cfg limiter now now' c)))
          \<and> (\<not> allowed \<longrightarrow> CanonicalMIMEHeaderKey L ''Retry-After''
              \<in> fst ` set (ResHeader (fst (RateLimit_handler L cfg limiter now now' c)))))
       \<and> (\<not> rl_Headers cfg \<longrightarrow>
            ResHeader (fst (RateLimit_handler L cfg limiter now now' c))
              = (if allowed then ResHeader c
                 else Header_Set L (ResHeader c) ''Retry-After''
                        (Sprintf_d (time_Sub resetTime now' sdiv Second))))"
  using assms
  by (simp add: RateLimit_handler_def Let_def AbortWithStatusJSON_def SetHeader_def
      keys_Header_Set go_int_Seconds time_Until_def)

theorem rate_limit_headers_toggle_witness:
  "ResHeader (fst (RateLimit_handler lib0 cfg1 lim1 500000000 700000000 ctx0))
     = [(''Retry-After'', [''0''])]
   \<and> {''X-RateLimit-Limit'', ''X-RateLimit-Remaining'', ''X-RateLimit-Reset'', ''Retry-After''}
       \<subseteq> fst ` set (ResHeader (fst (RateLimit_handler lib0 cfg2 lim1 500000000 700000000 ctx0)))"
proof -
  have s: "\<not> skipRequest (rl_SkipFunc cfg1) ctx0" "\<not> skipRequest (rl_SkipFunc cfg2) ctx0"
    by (simp_all add: skipRequest_def cfg1_def cfg2_def)
  have a: "allow lim1 500000000 (requestKey cfg1 ctx0) = ((False, 0, 1000000000), lim1)"
    "allow lim1 500000000 (requestKey cfg2 ctx0) = ((False, 0, 1000000000), lim1)"
    using allow_lim1 by (simp_all add: requestKey_ctx0)
  have v: "time_Sub 1000000000 700000000 sdiv Second = 0"
    by (simp add: time_Sub_def maxDuration_def minDuration_def Second_def signed_divide_int_def)
  have d: "Sprintf_d 0 = ''0''"
    by (simp add: Sprintf_d_def)
  have h: "\<not> rl_Headers cfg1" "rl_Headers cfg2" "CanonicalMIMEHeaderKey lib0 = (\<lambda>k. k)"
    by (simp_all add: cfg1_def cfg2_def lib0_def)
  from rate_limit_headers_toggle[OF s(1) a(1), of lib0 700000000]
       rate_limit_headers_toggle[OF s(2) a(2), of lib0 700000000]
  show ?thesis
    unfolding v d by (simp add: h Header_Set_def ctx0_def)
qed

text \<open>
  The claim C8 as stated fails: with the toggle off, a denied request carries \<open>Retry-After\<close>.
\<close>

theorem retry_after_without_headers:
  "\<not> rl_Headers cfg1
   \<and> map_of (ResHeader (fst (RateLimit_handler lib0 cfg1 lim1 500000000 700000000 ctx0)))
        ''Retry-After'' = Some [''0'']"
proof -
  have s: "\<not> skipRequest (rl_SkipFunc cfg1) ctx0" "\<not> rl_Headers cfg1"
    by (simp_all add: skipRequest_def cfg1_def)
  have a: "allow lim1 500000000 (requestKey cfg1 ctx0) = ((False, 0, 1000000000), lim1)"
    using allow_lim1 by (simp add: requestKey_ctx0)
  have v: "go_int (Duration_Seconds (time_Until 1000000000 700000000)) = 0"
    by (simp add: time_Until_def time_Sub_def maxDuration_def minDuration_def Second_def
        signed_divide_int_def signed_modulo_int_def go_int_def Duration_Seconds_def)
  have d: "Sprintf_d 0 = ''0''"
    by (simp add: Sprintf_d_def)
  have "ResHeader (fst (RateLimit_handler lib0 cfg1 lim1 500000000 700000000 ctx0))
          = Header_Set lib0 (ResHeader ctx0) ''Retry-After'' ''0''"
    by (simp add: RateLimit_handler_def s a v d Let_def AbortWithStatusJSON_def SetHeader_def)
  then show ?thesis
    using s by (simp add: Header_Set_def lib0_def ctx0_def)
qed

section \<open>Properties of the deadline executor\<close>

subsection \<open>Writers and the copy\<close>

lemma run_append:
  "run L cfg (es @ es') s = (case run L cfg es s of None \<Rightarrow> None | Some s' \<Rightarrow> run L cfg es' s')"
  by (induction es arbitrary: s) (auto split: option.splits)

lemma buf_apply_ops: "buf (apply_ops L ops w) = buf w @ written_body ops"
proof (induction ops arbitrary: w)
  case Nil
  then show ?case by simp
next
  case (Cons x xs)
  then show ?case by (cases x) (simp_all add: bw_Write_def bw_WriteHeader_def)
qed

lemma status_apply_ops: "status (apply_ops L ops w) = written_status (status w) ops"
proof (induction ops arbitrary: w)
  case Nil
  then show ?case by simp
next
  case (Cons x xs)
  then show ?case by (cases x) (simp_all add: bw_Write_def bw_WriteHeader_def)
qed

lemma Header_Get_Add:
  "Header_Get (Header_Add L h k v) c =
     (if CanonicalMIMEHeaderKey L k = c then Header_Get h c @ [v] else Header_Get h c)"
  by (simp add: Header_Get_def Header_Add_def update_conv)

lemma Header_Get_add_values:
  "Header_Get (add_values L k vs h) c =
     Header_Get h c @ (if CanonicalMIMEHeaderKey L k = c then vs else [])"
  by (induction vs arbitrary: h) (simp_all add: Header_Get_Add)

lemma Header_Get_copy_headers:
  "Header_Get (copy_headers L src ks h) c =
     Header_Get h c @ concat (map (Header_Get src) (filter (\<lambda>k. CanonicalMIMEHeaderKey L k = c) ks))"
  by (induction ks arbitrary: h) (simp_all add: Header_Get_add_values)

lemma rw_calls_copyTo:
  "rw_calls (copyTo L order w dst) =
     rw_calls dst @ [WriteHeaderCall (status w) (copy_headers L (header w) order (rw_Header dst)),
                     WriteCall (buf w)]"
  by (simp add: copyTo_def rw_WriteHeader_def rw_Write_def Let_def)

lemma rw_Header_copyTo:
  "rw_Header (copyTo L order w dst) = copy_headers L (header w) order (rw_Header dst)"
  by (simp add: copyTo_def rw_WriteHeader_def rw_Write_def Let_def)

lemma responses_copyTo: "responses (copyTo L order w dst) = responses dst + 1"
  by (simp add: responses_def rw_calls_copyTo)

lemma rw_calls_write_timeout:
  "rw_calls (write_timeout L cfg rw) =
     rw_calls rw @ [WriteHeaderCall (to_StatusCode cfg)
                      (Header_Set L (rw_Header rw) ''Content-Type'' ''application/json''),
                    WriteCall (Marshal L [(''error'', JString (to_ErrorMessage cfg)),
                                          (''timeout'', JString (DurationString L (to_Timeout cfg)))])]"
  by (simp add: write_timeout_def rw_WriteHeader_def rw_Write_def Let_def)

lemma rw_Header_write_timeout:
  "rw_Header (write_timeout L cfg rw) = Header_Set L (rw_Header rw) ''Content-Type'' ''application/json''"
  by (simp add: write_timeout_def rw_WriteHeader_def rw_Write_def Let_def)

lemma responses_write_timeout: "responses (write_timeout L cfg rw) = responses rw + 1"
  by (simp add: responses_def rw_calls_write_timeout)

subsection \<open>Reachable states\<close>

lemma Timeout_enter_guarded:
  "\<not> skipRequest (to_SkipFunc cfg) c \<Longrightarrow>
     Timeout_enter cfg c originalRes ops e = Guarded (start_exec originalRes (Aborted c) ops e)"
  by (simp add: Timeout_enter_def)

lemma exec_inv_start: "exec_inv L cfg real0 ops e (start_exec real0 a ops e)"
  by (simp add: exec_inv_def start_exec_def)

lemma exec_inv_step:
  assumes "exec_inv L cfg real0 ops e s" "step L cfg ev s = Some s'"
  shows "exec_inv L cfg real0 ops e s'"
proof (cases ev)
  case TaskStep
  with assms show ?thesis
    by (auto simp: exec_inv_def split: if_splits list.splits option.splits outcome.splits)
next
  case TaskEnd
  with assms show ?thesis
    by (auto simp: exec_inv_def split: if_splits ending.splits option.splits outcome.splits)
next
  case (SelectDone order)
  with assms show ?thesis
    by (auto simp: exec_inv_def split: if_splits)
next
  case (SelectCtx err)
  with assms show ?thesis
    by (auto simp: exec_inv_def split: if_splits)
qed

lemma exec_inv_run:
  assumes "exec_inv L cfg real0 ops e s" "run L cfg es s = Some s'"
  shows "exec_inv L cfg real0 ops e s'"
  using assms
proof (induction es arbitrary: s)
  case Nil
  then show ?case by simp
next
  case (Cons ev es)
  then show ?case
    by (auto split: option.splits dest: exec_inv_step)
qed

lemma exec_inv_reached:
  "run L cfg es (start_exec real0 a ops e) = Some s \<Longrightarrow> exec_inv L cfg real0 ops e s"
  using exec_inv_run[OF exec_inv_start] by blast

subsection \<open>The response on the real writer\<close>

text \<open>
  C1, as the code has it. In every state a request reaches, whatever the order of the steps:
  while the handler waits in the \<open>select\<close> the real writer is untouched; after \<open>case <-done\<close>
  it has received exactly one response more than before (the buffered one); after
  \<open>case <-ctx.Done()\<close> with \<open>DeadlineExceeded\<close> exactly one more (the timeout response); after
  \<open>case <-ctx.Done()\<close> with a cancelled context it is still untouched: no response is written.
  So at most one response is written, only once the race is resolved, and none on
  cancellation.
\<close>

theorem one_response_after_race:
  assumes "run L cfg es (start_exec real0 a ops e) = Some s"
  shows "(ex_main s = None \<longrightarrow> ex_real s = real0)
       \<and> (ex_main s = Some Completed \<longrightarrow> responses (ex_real s) = responses real0 + 1)
       \<and> (ex_main s = Some (TimedOut DeadlineExceeded) \<longrightarrow>
            responses (ex_real s) = responses real0 + 1)
       \<and> (ex_main s = Some (TimedOut Canceled) \<longrightarrow> ex_real s = real0)"
proof -
  have inv: "exec_inv L cfg real0 ops e s"
    using assms by (rule exec_inv_reached)
  show ?thesis
  proof (cases "ex_main s")
    case None
    with inv show ?thesis by (simp add: exec_inv_def)
  next
    case (Some out)
    show ?thesis
    proof (cases out)
      case Completed
      with Some inv show ?thesis
        by (auto simp: exec_inv_def responses_copyTo)
    next
      case (TimedOut err)
      with Some inv show ?thesis
        by (cases err) (auto simp: exec_inv_def responses_write_timeout)
    qed
  qed
qed

text \<open>A request whose handler sets a status, two cookies and a body, and completes.\<close>

lemma run_ex0_done:
  "run lib0 tcfg0 [TaskStep, TaskStep, TaskStep, TaskStep, TaskEnd, SelectDone [''Set-Cookie'']] ex0
     = Some \<lparr>ex_real = \<lparr>rw_Header = [(''X-Request-Id'', [''7'']), (''Set-Cookie'', [''a=1'', ''b=2''])],
                         rw_calls = [WriteHeaderCall 201
                                       [(''X-Request-Id'', [''7'']), (''Set-Cookie'', [''a=1'', ''b=2''])],
                                     WriteCall ''ok'']\<rparr>,
             ex_buffered = \<lparr>header = [(''Set-Cookie'', [''a=1'', ''b=2''])], buf = ''ok'', status = 201\<rparr>,
             ex_Res = RealWriter, ex_aborted = True, ex_todo = [], ex_ending = Returns,
             ex_task = Closed, ex_main = Some Completed\<rparr>"
  by (simp add: ex0_def start_exec_def newBufferedResponseWriter_def bw_Write_def
      bw_WriteHeader_def Header_Add_def Header_Get_def lib0_def range_order_def copyTo_def
      rw_WriteHeader_def rw_Write_def rw0_def Let_def)

lemma tcfg0_simps:
  "to_StatusCode tcfg0 = 504" "to_ErrorMessage tcfg0 = ''Request timeout''"
  "to_Timeout tcfg0 = 100000000"
  by (simp_all add: tcfg0_def Timeout_defaults_def StatusGatewayTimeout_def Let_def)

theorem one_response_after_race_witness:
  "responses (ex_real (the (run lib0 tcfg0
      [TaskStep, TaskStep, TaskStep, TaskStep, TaskEnd, SelectDone [''Set-Cookie'']] ex0))) = 1"
proof -
  let ?es = "[TaskStep, TaskStep, TaskStep, TaskStep, TaskEnd, SelectDone [''Set-Cookie'']]"
  have r: "run lib0 tcfg0 ?es
             (start_exec rw0 False [HWriteHeader 201, HdrAdd ''Set-Cookie'' ''a=1'',
                 HdrAdd ''Set-Cookie'' ''b=2'', HWrite ''ok''] Returns)
           = Some (the (run lib0 tcfg0 ?es ex0))"
    using run_ex0_done by (simp add: ex0_def)
  have m: "ex_main (the (run lib0 tcfg0 ?es ex0)) = Some Completed"
    using run_ex0_done by simp
  from one_response_after_race[OF r] m show ?thesis
    by (simp add: responses_def rw0_def)
qed

text \<open>
  The claim C1 as stated fails: the context is cancelled from outside while the handler is
  at work; the \<open>select\<close> takes \<open>case <-ctx.Done()\<close> and no response reaches the real writer.
\<close>

theorem cancelled_request_no_response:
  "run lib0 tcfg0 [TaskStep, SelectCtx Canceled] ex0 \<noteq> None
   \<and> ex_main (the (run lib0 tcfg0 [TaskStep, SelectCtx Canceled] ex0)) = Some (TimedOut Canceled)
   \<and> responses (ex_real (the (run lib0 tcfg0 [TaskStep, SelectCtx Canceled] ex0))) = 0"
  by (simp add: ex0_def start_exec_def responses_def rw0_def)

text \<open>
  C3. When the handler has taken \<open>case <-ctx.Done()\<close>, the real writer has received a response
  exactly when the error is \<open>DeadlineExceeded\<close>. That response is one \<open>WriteHeader\<close> with the
  configured status code (504 when none is configured) and one \<open>Write\<close> of the marshalled
  object with the two fields \<open>error\<close> (the configured message, or its default) and \<open>timeout\<close>
  (the configured budget, or its default, as a duration string), under the content type
  \<open>application/json\<close>, which is set before the \<open>WriteHeader\<close>. Nothing of the buffered writer
  is in it.
\<close>

theorem timeout_response:
  assumes "run L (Timeout_defaults raw) es (start_exec real0 a ops e) = Some s"
    and "ex_main s = Some (TimedOut err)"
  shows "rw_calls (ex_real s) = rw_calls real0 @
           (if err = DeadlineExceeded
            then [WriteHeaderCall
                    (if to_StatusCode raw = 0 then StatusGatewayTimeout else to_StatusCode raw)
                    (Header_Set L (rw_Header real0) ''Content-Type'' ''application/json''),
                  WriteCall (Marshal L
                    [(''error'', JString (if to_ErrorMessage raw = [] then ''Request timeout''
                                         else to_ErrorMessage raw)),
                     (''timeout'', JString (DurationString L
                        (if to_Timeout raw \<le> 0 then 30 * Second else to_Timeout raw)))])]
            else [])
       \<and> (rw_calls (ex_real s) \<noteq> rw_calls real0 \<longleftrightarrow> err = DeadlineExceeded)
       \<and> rw_Header (ex_real s) =
           (if err = DeadlineExceeded
            then Header_Set L (rw_Header real0) ''Content-Type'' ''application/json''
            else rw_Header real0)"
proof -
  have inv: "exec_inv L (Timeout_defaults raw) real0 ops e s"
    using assms(1) by (rule exec_inv_reached)
  have r: "ex_real s = (if err = DeadlineExceeded
                        then write_timeout L (Timeout_defaults raw) real0 else real0)"
    using inv assms(2) by (simp add: exec_inv_def)
  have d: "to_StatusCode (Timeout_defaults raw)
             = (if to_StatusCode raw = 0 then StatusGatewayTimeout else to_StatusCode raw)"
    "to_ErrorMessage (Timeout_defaults raw)
             = (if to_ErrorMessage raw = [] then ''Request timeout'' else to_ErrorMessage raw)"
    "to_Timeout (Timeout_defaults raw)
             = (if to_Timeout raw \<le> 0 then 30 * Second else to_Timeout raw)"
    by (simp_all add: Timeout_defaults_def Let_def)
  show ?thesis
  proof (cases "err = DeadlineExceeded")
    case True
    then show ?thesis
      unfolding r using d by (simp add: rw_calls_write_timeout rw_Header_write_timeout)
  next
    case False
    then show ?thesis unfolding r by simp
  qed
qed

theorem timeout_response_witness:
  "rw_calls (ex_real (the (run lib0 tcfg0 [TaskStep, SelectCtx DeadlineExceeded] ex0)))
     = [WriteHeaderCall 504
          [(''X-Request-Id'', [''7'']), (''Content-Type'', [''application/json''])],
        WriteCall ''error=Request timeout;timeout=100000000ns;'']"
proof -
  let ?es = "[TaskStep, SelectCtx DeadlineExceeded]"
  let ?raw = "\<lparr>to_Timeout = 100000000, to_ErrorMessage = [], to_StatusCode = 0, to_SkipFunc = None\<rparr>"
  have e: "run lib0 tcfg0 ?es ex0 \<noteq> None"
    "ex_main (the (run lib0 tcfg0 ?es ex0)) = Some (TimedOut DeadlineExceeded)"
    by (simp_all add: ex0_def start_exec_def)
  have r: "run lib0 (Timeout_defaults ?raw) ?es
             (start_exec rw0 False [HWriteHeader 201, HdrAdd ''Set-Cookie'' ''a=1'',
                 HdrAdd ''Set-Cookie'' ''b=2'', HWrite ''ok''] Returns)
           = Some (the (run lib0 tcfg0 ?es ex0))"
    using e(1) by (auto simp: ex0_def tcfg0_def)
  from timeout_response[OF r e(2)] show ?thesis
    by (simp add: rw0_def StatusGatewayTimeout_def lib0_def Sprintf_d_def Header_Set_def)
qed

lemma filter_same_key:
  assumes "distinct xs" "inj_on f (set xs)" "k \<in> set xs"
  shows "filter (\<lambda>k'. f k' = f k) xs = [k]"
  using assms
proof (induction xs)
  case Nil
  then show ?case by simp
next
  case (Cons x xs)
  show ?case
  proof (cases "x = k")
    case True
    have "filter (\<lambda>k'. f k' = f k) xs = []"
    proof (rule filter_False, rule ballI)
      fix y assume y: "y \<in> set xs"
      with Cons.prems True have "y \<noteq> k" by auto
      with Cons.prems(2) y True show "\<not> f y = f k"
        by (auto simp: inj_on_def)
    qed
    with True show ?thesis by simp
  next
    case False
    with Cons.prems have k: "k \<in> set xs" by simp
    have "f x \<noteq> f k"
      using Cons.prems(2) False k by (auto simp: inj_on_def)
    moreover have "filter (\<lambda>k'. f k' = f k) xs = [k]"
      using Cons.prems k by (intro Cons.IH) (auto simp: inj_on_def)
    ultimately show ?thesis by simp
  qed
qed

lemma Header_Get_nonempty_key: "v \<in> set (Header_Get h k) \<Longrightarrow> k \<in> fst ` set h"
proof -
  assume "v \<in> set (Header_Get h k)"
  then obtain vs where "map_of h k = Some vs"
    by (cases "map_of h k") (auto simp: Header_Get_def)
  then have "(k, vs) \<in> set h" by (rule map_of_SomeD)
  then show ?thesis by force
qed

text \<open>
  C4. When the handler takes \<open>case <-done\<close>, all operations of the downstream chain have been
  applied to the buffered writer. The real writer then receives one \<open>WriteHeader\<close> with the
  status the chain wrote (200 if it wrote none), made when the headers are already copied,
  and one \<open>Write\<close> with the bytes it wrote, in order. Under every canonical name the real header holds its former values followed by the
  buffered values of the keys with that name, in the order \<open>copyTo\<close> visits them, each key's
  values kept together and in order; so every buffered value is present under the canonical
  name of its key, and when no two buffered keys share a canonical name the values of key
  \<open>k\<close> are appended as they are. The context points to the real writer again and is aborted,
  and no further step of the request is possible: the chain is not run again.
\<close>

theorem completed_response:
  assumes "run L cfg (es @ [SelectDone order]) (start_exec real0 a ops e) = Some s"
  shows "rw_calls (ex_real s)
           = rw_calls real0 @ [WriteHeaderCall (written_status 200 ops) (rw_Header (ex_real s)),
                               WriteCall (written_body ops)]
       \<and> (\<forall>c. Header_Get (rw_Header (ex_real s)) c
               = Header_Get (rw_Header real0) c
                 @ concat (map (Header_Get (header (apply_ops L ops newBufferedResponseWriter)))
                             (filter (\<lambda>k. CanonicalMIMEHeaderKey L k = c) order)))
       \<and> (\<forall>k v. v \<in> set (Header_Get (header (apply_ops L ops newBufferedResponseWriter)) k) \<longrightarrow>
               v \<in> set (Header_Get (rw_Header (ex_real s)) (CanonicalMIMEHeaderKey L k)))
       \<and> (inj_on (CanonicalMIMEHeaderKey L) (set order) \<longrightarrow>
            (\<forall>k \<in> set order. Header_Get (rw_Header (ex_real s)) (CanonicalMIMEHeaderKey L k)
               = Header_Get (rw_Header real0) (CanonicalMIMEHeaderKey L k)
                 @ Header_Get (header (apply_ops L ops newBufferedResponseWriter)) k))
       \<and> ex_Res s = RealWriter \<and> ex_aborted s \<and> ex_main s = Some Completed
       \<and> (\<forall>ev. step L cfg ev s = None)"
proof -
  let ?w = "apply_ops L ops newBufferedResponseWriter"
  let ?canon = "CanonicalMIMEHeaderKey L"
  from assms obtain s1 where s1: "run L cfg es (start_exec real0 a ops e) = Some s1"
    and st: "step L cfg (SelectDone order) s1 = Some s"
    by (auto simp: run_append split: option.splits)
  have inv: "exec_inv L cfg real0 ops e s1"
    using s1 by (rule exec_inv_reached)
  from st have g: "ex_main s1 = None" "ex_task s1 = Closed"
    "range_order (header (ex_buffered s1)) order"
    and s: "s = s1\<lparr>ex_Res := RealWriter,
                   ex_real := copyTo L order (ex_buffered s1) (ex_real s1),
                   ex_aborted := True, ex_main := Some Completed\<rparr>"
    by (auto split: if_splits)
  from inv g have b: "ex_buffered s1 = ?w" and r0: "ex_real s1 = real0"
    by (auto simp: exec_inv_def)
  have real: "ex_real s = copyTo L order ?w real0"
    using s b r0 by simp
  have calls: "rw_calls (ex_real s)
           = rw_calls real0 @ [WriteHeaderCall (written_status 200 ops) (rw_Header (ex_real s)),
                               WriteCall (written_body ops)]"
    unfolding real
    by (simp add: rw_calls_copyTo rw_Header_copyTo buf_apply_ops status_apply_ops
        newBufferedResponseWriter_def)
  have hdr: "Header_Get (rw_Header (ex_real s)) c
               = Header_Get (rw_Header real0) c
                 @ concat (map (Header_Get (header ?w)) (filter (\<lambda>k. ?canon k = c) order))" for c
    unfolding real by (simp add: rw_Header_copyTo Header_Get_copy_headers)
  have ord: "distinct order" "set order = fst ` set (header ?w)"
    using g(3) b by (simp_all add: range_order_def)
  have pres: "v \<in> set (Header_Get (rw_Header (ex_real s)) (?canon k))"
    if "v \<in> set (Header_Get (header ?w) k)" for k v
  proof -
    have "k \<in> set order"
      using that ord(2) by (auto dest: Header_Get_nonempty_key)
    then have "k \<in> set (filter (\<lambda>k'. ?canon k' = ?canon k) order)" by simp
    with that show ?thesis unfolding hdr by auto
  qed
  have exact: "Header_Get (rw_Header (ex_real s)) (?canon k)
               = Header_Get (rw_Header real0) (?canon k) @ Header_Get (header ?w) k"
    if "inj_on ?canon (set order)" "k \<in> set order" for k
    unfolding hdr using filter_same_key[OF ord(1) that] by simp
  have fin: "ex_Res s = RealWriter" "ex_aborted s" "ex_main s = Some Completed"
    using s by simp_all
  have quiet: "step L cfg ev s = None" for ev
    using s g(2) by (cases ev) simp_all
  show ?thesis
    using calls hdr pres exact fin quiet by blast
qed

theorem completed_response_witness:
  "rw_calls (ex_real (the (run lib0 tcfg0
      [TaskStep, TaskStep, TaskStep, TaskStep, TaskEnd, SelectDone [''Set-Cookie'']] ex0)))
     = [WriteHeaderCall 201 [(''X-Request-Id'', [''7'']), (''Set-Cookie'', [''a=1'', ''b=2''])],
        WriteCall ''ok'']
   \<and> Header_Get (rw_Header (ex_real (the (run lib0 tcfg0
      [TaskStep, TaskStep, TaskStep, TaskStep, TaskEnd, SelectDone [''Set-Cookie'']] ex0))))
        ''Set-Cookie'' = [''a=1'', ''b=2'']"
proof -
  let ?es = "[TaskStep, TaskStep, TaskStep, TaskStep, TaskEnd]"
  let ?ops = "[HWriteHeader 201, HdrAdd ''Set-Cookie'' ''a=1'',
               HdrAdd ''Set-Cookie'' ''b=2'', HWrite ''ok'']"
  define S where "S = the (run lib0 tcfg0 (?es @ [SelectDone [''Set-Cookie'']]) ex0)"
  have r: "run lib0 tcfg0 (?es @ [SelectDone [''Set-Cookie'']]) (start_exec rw0 False ?ops Returns)
           = Some S"
    unfolding S_def using run_ex0_done by (simp add: ex0_def)
  have h: "rw_Header (ex_real S) = [(''X-Request-Id'', [''7'']), (''Set-Cookie'', [''a=1'', ''b=2''])]"
    unfolding S_def using run_ex0_done by simp
  from completed_response[OF r]
  have "rw_calls (ex_real S)
          = rw_calls rw0 @ [WriteHeaderCall (written_status 200 ?ops) (rw_Header (ex_real S)),
                            WriteCall (written_body ?ops)]"
    by blast
  then have "rw_calls (ex_real S)
          = [WriteHeaderCall 201 [(''X-Request-Id'', [''7'']), (''Set-Cookie'', [''a=1'', ''b=2''])],
             WriteCall ''ok'']"
    unfolding h by (simp add: rw0_def)
  moreover have "Header_Get (rw_Header (ex_real S)) ''Set-Cookie'' = [''a=1'', ''b=2'']"
    unfolding h by (simp add: Header_Get_def)
  ultimately show ?thesis
    unfolding S_def by simp
qed

text \<open>
  C5, as the code has it. When the downstream chain panics in the goroutine, the panic is
  recovered there and \<open>done\<close> is never closed, whatever had been buffered before. So
  \<open>case <-done\<close> can never be taken and the request never completes normally; the handler
  can always take \<open>case <-ctx.Done()\<close>, and then the real writer holds the timeout response
  when the deadline expired, and nothing new when the context was cancelled.
\<close>

theorem panic_contained:
  assumes "run L cfg es (start_exec real0 a ops Panics) = Some s"
  shows "ex_task s \<noteq> Closed \<and> ex_main s \<noteq> Some Completed
       \<and> (ex_main s = Some (TimedOut DeadlineExceeded) \<longrightarrow> ex_real s = write_timeout L cfg real0)
       \<and> (ex_main s = None \<or> ex_main s = Some (TimedOut Canceled) \<longrightarrow> ex_real s = real0)
       \<and> (\<forall>order. step L cfg (SelectDone order) s = None)
       \<and> (ex_main s = None \<longrightarrow> (\<forall>err. step L cfg (SelectCtx err) s \<noteq> None))"
proof -
  have inv: "exec_inv L cfg real0 ops Panics s"
    using assms by (rule exec_inv_reached)
  then have t: "ex_task s \<noteq> Closed"
    by (auto simp: exec_inv_def)
  have m: "ex_main s \<noteq> Some Completed"
    using inv t by (auto simp: exec_inv_def)
  have d: "ex_main s = Some (TimedOut DeadlineExceeded) \<longrightarrow> ex_real s = write_timeout L cfg real0"
    using inv by (auto simp: exec_inv_def)
  have c: "ex_main s = None \<or> ex_main s = Some (TimedOut Canceled) \<longrightarrow> ex_real s = real0"
    using inv by (auto simp: exec_inv_def)
  have n: "step L cfg (SelectDone order) s = None" for order
    using t by simp
  have x: "ex_main s = None \<longrightarrow> (\<forall>err. step L cfg (SelectCtx err) s \<noteq> None)"
    by simp
  show ?thesis using t m d c n x by blast
qed

text \<open>A request whose handler sets a status and a body, and then panics.\<close>

lemma run_ex1_timeout:
  "run lib0 tcfg0 [TaskStep, TaskStep, TaskEnd, SelectCtx DeadlineExceeded] ex1
     = Some \<lparr>ex_real = \<lparr>rw_Header = [(''X-Request-Id'', [''7'']),
                                       (''Content-Type'', [''application/json''])],
                         rw_calls = [WriteHeaderCall 504
                                       [(''X-Request-Id'', [''7'']),
                                        (''Content-Type'', [''application/json''])],
                                     WriteCall ''error=Request timeout;timeout=100000000ns;'']\<rparr>,
             ex_buffered = \<lparr>header = [], buf = ''ok'', status = 201\<rparr>,
             ex_Res = RealWriter, ex_aborted = True, ex_todo = [], ex_ending = Panics,
             ex_task = Recovered, ex_main = Some (TimedOut DeadlineExceeded)\<rparr>"
  by (simp add: ex1_def start_exec_def newBufferedResponseWriter_def bw_Write_def
      bw_WriteHeader_def Header_Set_def lib0_def write_timeout_def tcfg0_simps
      rw_WriteHeader_def rw_Write_def rw0_def Let_def Sprintf_d_def)

theorem panic_contained_witness:
  "ex_task (the (run lib0 tcfg0 [TaskStep, TaskStep, TaskEnd, SelectCtx DeadlineExceeded] ex1))
     = Recovered
   \<and> rw_calls (ex_real (the (run lib0 tcfg0
        [TaskStep, TaskStep, TaskEnd, SelectCtx DeadlineExceeded] ex1)))
     = [WriteHeaderCall 504
          [(''X-Request-Id'', [''7'']), (''Content-Type'', [''application/json''])],
        WriteCall ''error=Request timeout;timeout=100000000ns;'']"
proof -
  let ?es = "[TaskStep, TaskStep, TaskEnd, SelectCtx DeadlineExceeded]"
  have r: "run lib0 tcfg0 ?es (start_exec rw0 False [HWriteHeader 201, HWrite ''ok''] Panics)
           = Some (the (run lib0 tcfg0 ?es ex1))"
    using run_ex1_timeout by (simp add: ex1_def)
  have m: "ex_main (the (run lib0 tcfg0 ?es ex1)) = Some (TimedOut DeadlineExceeded)"
    "ex_task (the (run lib0 tcfg0 ?es ex1)) = Recovered"
    using run_ex1_timeout by simp_all
  from panic_contained[OF r] m show ?thesis
    by (simp add: write_timeout_def rw_WriteHeader_def rw_Write_def Header_Set_def Let_def
        tcfg0_simps rw0_def lib0_def Sprintf_d_def)
qed

text \<open>
  The claim C5 as stated fails: the chain panics after it has buffered status 201 and the
  body \<open>ok\<close>; \<open>case <-done\<close> cannot be taken, and at the deadline the caller gets the
  timeout response, not the buffered one.
\<close>

theorem panic_after_buffering_times_out:
  "run lib0 tcfg0 [TaskStep, TaskStep, TaskEnd, SelectDone []] ex1 = None
   \<and> rw_calls (ex_real (the (run lib0 tcfg0
        [TaskStep, TaskStep, TaskEnd, SelectCtx DeadlineExceeded] ex1)))
     = [WriteHeaderCall 504
          [(''X-Request-Id'', [''7'']), (''Content-Type'', [''application/json''])],
        WriteCall ''error=Request timeout;timeout=100000000ns;'']
   \<and> buf (ex_buffered (the (run lib0 tcfg0
        [TaskStep, TaskStep, TaskEnd, SelectCtx DeadlineExceeded] ex1))) = ''ok''"
proof -
  have "run lib0 tcfg0 [TaskStep, TaskStep, TaskEnd, SelectDone []] ex1 = None"
    by (simp add: ex1_def start_exec_def)
  then show ?thesis
    using run_ex1_timeout by simp
qed

section \<open>Properties of the locks\<close>

lemma cinv_init: "cinv keys (cinit rl)"
  by (simp add: cinv_def cinit_def)

lemma other_blocked:
  assumes "cinv keys s" "in_call (c_pc s t)" "u \<noteq> t"
  shows "cstep keys clock u s = None"
proof -
  from assms have d: "c_dirLock s = Some t" by (simp add: cinv_def)
  with assms have "\<not> in_call (c_pc s u)" by (auto simp: cinv_def)
  then have "c_pc s u = AtLockDir \<or> c_pc s u = AtReturned"
    by (cases "c_pc s u") simp_all
  with d show ?thesis by (auto simp: cstep_def)
qed

lemma cinv_step:
  assumes inv: "cinv keys s" and st: "cstep keys clock t s = Some s'"
  shows "cinv keys s'"
proof -
  have others: "\<not> in_call (c_pc s u)" if "in_call (c_pc s t)" "u \<noteq> t" for u
    using inv that by (auto simp: cinv_def)
  have idle: "\<forall>u. u \<noteq> t \<longrightarrow> c_pc s u = AtLockDir \<or> c_pc s u = AtReturned"
    if "in_call (c_pc s t)"
  proof (intro allI impI)
    fix u assume "u \<noteq> t"
    with others[OF that] have "\<not> in_call (c_pc s u)" by simp
    then show "c_pc s u = AtLockDir \<or> c_pc s u = AtReturned"
      by (cases "c_pc s u") simp_all
  qed
  show ?thesis
  proof (cases "c_pc s t")
    case AtLockDir
    with st have f: "c_dirLock s = None"
      and s': "s' = s\<lparr>c_dirLock := Some t, c_pc := (c_pc s)(t := AtNow)\<rparr>"
      by (auto simp: cstep_def split: if_splits)
    from inv f have n: "\<not> in_call (c_pc s u)" for u by (simp add: cinv_def)
    show ?thesis
      unfolding cinv_def s' using inv n AtLockDir
      by (auto simp: cinv_def)
  next
    case AtNow
    with st have s': "s' = s\<lparr>c_now := (c_now s)(t := clock), c_pc := (c_pc s)(t := AtLookup)\<rparr>"
      by (auto simp: cstep_def)
    show ?thesis
      unfolding cinv_def s' using inv AtNow idle
      by (auto simp: cinv_def)
  next
    case AtLookup
    then have oth: "\<forall>u. u \<noteq> t \<longrightarrow> c_pc s u = AtLockDir \<or> c_pc s u = AtReturned"
      using idle by simp
    show ?thesis
    proof (cases "buckets (c_limiter s) (keys t)")
      case None
      with st AtLookup have s': "s' = s\<lparr>c_limiter := set_bucket s (keys t)
                \<lparr>tokens = rl_Max (config (c_limiter s)), lastReset = c_now s t\<rparr>,
              c_pc := (c_pc s)(t := AtLockBucket)\<rparr>"
        by (simp add: cstep_def Let_def)
      show ?thesis
        unfolding cinv_def s' using inv AtLookup oth
        by (auto simp: cinv_def set_bucket_def)
    next
      case (Some b)
      with st AtLookup have s': "s' = s\<lparr>c_pc := (c_pc s)(t := AtLockBucket)\<rparr>"
        by (simp add: cstep_def Let_def)
      show ?thesis
        unfolding cinv_def s' using inv AtLookup oth Some
        by (auto simp: cinv_def)
    qed
  next
    case AtLockBucket
    then have oth: "\<forall>u. u \<noteq> t \<longrightarrow> c_pc s u = AtLockDir \<or> c_pc s u = AtReturned"
      using idle by simp
    from st AtLockBucket have s': "s' = s\<lparr>c_bucketLock := (c_bucketLock s)(keys t := Some t),
                           c_pc := (c_pc s)(t := AtReset)\<rparr>"
      by (auto simp: cstep_def Let_def split: if_splits)
    have free: "c_bucketLock s k = None" for k
    proof (cases "c_bucketLock s k")
      case (Some u)
      with inv have "in_bucket (c_pc s u)" by (simp add: cinv_def)
      with oth AtLockBucket show ?thesis by (cases "u = t") auto
    qed simp
    show ?thesis
      unfolding cinv_def s' using inv AtLockBucket oth free
      by (auto simp: cinv_def)
  next
    case AtReset
    then have oth: "\<forall>u. u \<noteq> t \<longrightarrow> c_pc s u = AtLockDir \<or> c_pc s u = AtReturned"
      using idle by simp
    from inv AtReset obtain b where b: "buckets (c_limiter s) (keys t) = Some b"
      by (auto simp: cinv_def)
    show ?thesis
    proof (cases "time_Sub (c_now s t) (lastReset b) \<ge> rl_Window (config (c_limiter s))")
      case True
      with st AtReset b have s': "s' = s\<lparr>c_limiter := set_bucket s (keys t)
                (b\<lparr>tokens := rl_Max (config (c_limiter s)), lastReset := c_now s t\<rparr>),
              c_pc := (c_pc s)(t := AtCheck)\<rparr>"
        by (simp add: cstep_def Let_def)
      show ?thesis
        unfolding cinv_def s' using inv AtReset oth
        by (auto simp: cinv_def set_bucket_def)
    next
      case False
      with st AtReset b have s': "s' = s\<lparr>c_pc := (c_pc s)(t := AtCheck)\<rparr>"
        by (simp add: cstep_def Let_def)
      show ?thesis
        unfolding cinv_def s' using inv AtReset oth b
        by (auto simp: cinv_def)
    qed
  next
    case AtCheck
    then have oth: "\<forall>u. u \<noteq> t \<longrightarrow> c_pc s u = AtLockDir \<or> c_pc s u = AtReturned"
      using idle by simp
    from inv AtCheck obtain b where b: "buckets (c_limiter s) (keys t) = Some b"
      by (auto simp: cinv_def)
    let ?r = "time_Add (lastReset b) (rl_Window (config (c_limiter s)))"
    show ?thesis
    proof (cases "tokens b > 0")
      case True
      with st AtCheck b have s': "s' = s\<lparr>c_resetTime := (c_resetTime s)(t := ?r),
                                   c_pc := (c_pc s)(t := AtDecrement)\<rparr>"
        by (simp add: cstep_def Let_def)
      show ?thesis
        unfolding cinv_def s' using inv AtCheck oth b True
        by (auto simp: cinv_def)
    next
      case False
      with st AtCheck b have s': "s' = s\<lparr>c_resetTime := (c_resetTime s)(t := ?r),
                                   c_result := (c_result s)(t \<mapsto> (False, 0, ?r)),
                                   c_pc := (c_pc s)(t := AtUnlockBucket)\<rparr>"
        by (simp add: cstep_def Let_def)
      show ?thesis
        unfolding cinv_def s' using inv AtCheck oth b
        by (auto simp: cinv_def)
    qed
  next
    case AtDecrement
    then have oth: "\<forall>u. u \<noteq> t \<longrightarrow> c_pc s u = AtLockDir \<or> c_pc s u = AtReturned"
      using idle by simp
    from inv AtDecrement obtain b where b: "buckets (c_limiter s) (keys t) = Some b"
      by (auto simp: cinv_def)
    with st AtDecrement have s': "s' = s\<lparr>c_limiter := set_bucket s (keys t) (b\<lparr>tokens := tokens b - 1\<rparr>),
                          c_result := (c_result s)(t \<mapsto> (True, tokens b - 1, c_resetTime s t)),
                          c_pc := (c_pc s)(t := AtUnlockBucket)\<rparr>"
      by (simp add: cstep_def Let_def)
    show ?thesis
      unfolding cinv_def s' using inv AtDecrement oth
      by (auto simp: cinv_def set_bucket_def)
  next
    case AtUnlockBucket
    then have oth: "\<forall>u. u \<noteq> t \<longrightarrow> c_pc s u = AtLockDir \<or> c_pc s u = AtReturned"
      using idle by simp
    from st AtUnlockBucket have s': "s' = s\<lparr>c_bucketLock := (c_bucketLock s)(keys t := None),
                     c_pc := (c_pc s)(t := AtUnlockDir)\<rparr>"
      by (simp add: cstep_def Let_def)
    show ?thesis
      unfolding cinv_def s' using inv AtUnlockBucket oth
      by (auto simp: cinv_def)
  next
    case AtUnlockDir
    then have oth: "\<forall>u. u \<noteq> t \<longrightarrow> c_pc s u = AtLockDir \<or> c_pc s u = AtReturned"
      using idle by simp
    from st AtUnlockDir have s': "s' = s\<lparr>c_dirLock := None, c_pc := (c_pc s)(t := AtReturned)\<rparr>"
      by (simp add: cstep_def Let_def)
    show ?thesis
      unfolding cinv_def s' using inv AtUnlockDir oth
      by (auto simp: cinv_def)
  next
    case AtReturned
    with st show ?thesis by (simp add: cstep_def)
  qed
qed

lemma cinv_run:
  assumes "cinv keys s" "crun keys sched s = Some s'"
  shows "cinv keys s'"
  using assms
proof (induction sched arbitrary: s)
  case Nil
  then show ?case by simp
next
  case (Cons x sched)
  obtain t clock where x: "x = (t, clock)" by (cases x)
  from Cons.prems(2) obtain s1 where s1: "cstep keys clock t s = Some s1"
    and r: "crun keys sched s1 = Some s'"
    unfolding x by (auto split: option.splits)
  from cinv_step[OF Cons.prems(1) s1] r show ?case
    by (rule Cons.IH)
qed

text \<open>
  C9, as the code has it. In every state that concurrent callers of \<open>allow\<close> reach: at most
  one caller is between \<open>rl.mu.Lock()\<close> and the deferred \<open>rl.mu.Unlock()\<close>, whatever the keys;
  that caller owns the directory lock for the whole call, the bucket section included, and
  no other caller can take a step meanwhile; inside the bucket section it also owns the
  bucket's lock; and at the decrement the bucket still holds the positive token count that
  the test saw, so the check-then-decrement is atomic with respect to every other caller.
  Calls for distinct keys therefore do serialize through the directory lock.
\<close>

theorem allow_calls_serialize:
  assumes "crun keys sched (cinit rl) = Some s"
  shows "(\<forall>t u. t \<noteq> u \<longrightarrow> \<not> (in_call (c_pc s t) \<and> in_call (c_pc s u)))
       \<and> (\<forall>t. in_call (c_pc s t) \<longrightarrow>
             c_dirLock s = Some t \<and> (\<forall>u clock. u \<noteq> t \<longrightarrow> cstep keys clock u s = None))
       \<and> (\<forall>t. in_bucket (c_pc s t) \<longrightarrow> in_call (c_pc s t) \<and> c_bucketLock s (keys t) = Some t)
       \<and> (\<forall>t. c_pc s t = AtDecrement \<longrightarrow>
             (\<exists>b. buckets (c_limiter s) (keys t) = Some b \<and> 0 < tokens b))"
proof -
  have inv: "cinv keys s"
    using cinv_init assms by (rule cinv_run)
  have a: "\<not> (in_call (c_pc s t) \<and> in_call (c_pc s u))" if "t \<noteq> u" for t u
    using inv that by (auto simp: cinv_def)
  have b: "c_dirLock s = Some t \<and> (\<forall>u clock. u \<noteq> t \<longrightarrow> cstep keys clock u s = None)"
    if "in_call (c_pc s t)" for t
    using inv that other_blocked[OF inv that] by (auto simp: cinv_def)
  have c: "in_call (c_pc s t) \<and> c_bucketLock s (keys t) = Some t" if "in_bucket (c_pc s t)" for t
  proof -
    have "in_call (c_pc s t)" using that by (cases "c_pc s t") simp_all
    with inv that show ?thesis by (simp add: cinv_def)
  qed
  have d: "\<exists>b. buckets (c_limiter s) (keys t) = Some b \<and> 0 < tokens b"
    if "c_pc s t = AtDecrement" for t
  proof -
    from inv that obtain b where "buckets (c_limiter s) (keys t) = Some b"
      by (auto simp: cinv_def)
    with inv that show ?thesis by (auto simp: cinv_def)
  qed
  show ?thesis using a b c d by blast
qed

text \<open>Two callers with the keys \<open>a\<close> and \<open>b\<close>, both buckets in place; the first one moves.\<close>

lemma crun_lim2_4:
  "crun keys2 [(0, 5), (0, 5), (0, 5), (0, 5)] (cinit lim2)
     = Some ((cinit lim2)\<lparr>c_dirLock := Some 0, c_bucketLock := (\<lambda>k. None)(''a'' := Some 0),
                           c_pc := (\<lambda>t. AtLockDir)(0 := AtReset),
                           c_now := (\<lambda>t. 0)(0 := 5)\<rparr>)"
  by (simp add: cstep_def cinit_def keys2_def lim2_def Let_def)

theorem allow_calls_serialize_witness:
  "c_dirLock (the (crun keys2 [(0, 5), (0, 5), (0, 5), (0, 5)] (cinit lim2))) = Some 0
   \<and> c_bucketLock (the (crun keys2 [(0, 5), (0, 5), (0, 5), (0, 5)] (cinit lim2))) ''a'' = Some 0
   \<and> cstep keys2 9 1 (the (crun keys2 [(0, 5), (0, 5), (0, 5), (0, 5)] (cinit lim2))) = None"
proof -
  define S where "S = the (crun keys2 [(0, 5), (0, 5), (0, 5), (0, 5)] (cinit lim2))"
  have r: "crun keys2 [(0, 5), (0, 5), (0, 5), (0, 5)] (cinit lim2) = Some S"
    unfolding S_def using crun_lim2_4 by simp
  have p: "in_call (c_pc S 0)" "in_bucket (c_pc S 0)" "keys2 0 = ''a''"
    unfolding S_def using crun_lim2_4 by (simp_all add: keys2_def)
  from allow_calls_serialize[OF r]
  have "c_dirLock S = Some 0 \<and> (\<forall>u clock. u \<noteq> 0 \<longrightarrow> cstep keys2 clock u S = None)"
    and "c_bucketLock S (keys2 0) = Some 0"
    using p by blast+
  then have "c_dirLock S = Some 0 \<and> c_bucketLock S ''a'' = Some 0 \<and> cstep keys2 9 1 S = None"
    using p(3) by simp
  then show ?thesis unfolding S_def .
qed

lemma crun_lim2_6:
  "crun keys2 [(0, 5), (0, 5), (0, 5), (0, 5), (0, 5), (0, 5)] (cinit lim2)
     = Some ((cinit lim2)\<lparr>c_dirLock := Some 0, c_bucketLock := (\<lambda>k. None)(''a'' := Some 0),
                           c_pc := (\<lambda>t. AtLockDir)(0 := AtDecrement),
                           c_now := (\<lambda>t. 0)(0 := 5),
                           c_resetTime := (\<lambda>t. 0)(0 := 1000000000)\<rparr>)"
  by (simp add: cstep_def cinit_def keys2_def lim2_def cfg1_def Let_def time_Sub_def time_Add_def
      Second_def maxDuration_def minDuration_def)

text \<open>
  The claim C9 as stated fails: both buckets exist, so nothing is created; the caller for
  key \<open>a\<close> stands before its decrement and still owns the directory lock, and the caller for
  the other key \<open>b\<close> cannot take its first step.
\<close>

theorem directory_lock_held_at_decrement:
  "buckets lim2 (keys2 0) \<noteq> None \<and> buckets lim2 (keys2 1) \<noteq> None \<and> keys2 0 \<noteq> keys2 1
   \<and> c_pc (the (crun keys2 [(0, 5), (0, 5), (0, 5), (0, 5), (0, 5), (0, 5)] (cinit lim2))) 0
       = AtDecrement
   \<and> c_dirLock (the (crun keys2 [(0, 5), (0, 5), (0, 5), (0, 5), (0, 5), (0, 5)] (cinit lim2)))
       = Some 0
   \<and> cstep keys2 5 1 (the (crun keys2 [(0, 5), (0, 5), (0, 5), (0, 5), (0, 5), (0, 5)] (cinit lim2)))
       = None"
  unfolding crun_lim2_6
  by (simp add: cstep_def cinit_def keys2_def lim2_def)

text \<open>A caller that runs alone from start to return does what \<open>allow\<close> does.\<close>

lemma solo_call_is_allow:
  assumes "c_pc s t = AtLockDir" "c_dirLock s = None" "c_bucketLock s (keys t) = None"
  shows "\<exists>s'. crun keys (replicate (if fst (fst (allow (c_limiter s) clock (keys t))) then 9 else 8)
                        (t, clock)) s = Some s'
            \<and> c_pc s' t = AtReturned
            \<and> c_result s' t = Some (fst (allow (c_limiter s) clock (keys t)))
            \<and> c_limiter s' = snd (allow (c_limiter s) clock (keys t))
            \<and> c_dirLock s' = None \<and> c_bucketLock s' = c_bucketLock s"
  using assms
  by (cases "c_limiter s")
     (auto simp: numeral_eq_Suc cstep_def allow_def Let_def set_bucket_def time_Add_def
        fun_upd_idem split: option.splits)

end
